theory Spec2Isabelle
  imports Complex_Main "HOL-Library.Log_Nat" "HOL-Library.Word"
begin

section \<open>Python and NumPy values\<close>

text \<open>
  The module \<open>decimer_segmentation/complete_structure.py\<close> works on NumPy arrays and
  Python numbers. Exceptions are values of the type \<open>error\<close>; a function that can raise
  returns \<open>error + 'a\<close>, with \<open>Inl\<close> for the exception.
\<close>

datatype error = ValueError | IndexError | ZeroDivisionError | TypeError

subsection \<open>Floats\<close>

text \<open>
  A Python \<open>float\<close> and a NumPy \<open>float64\<close> are IEEE binary64 numbers. A finite one is
  modelled as the rational it denotes, and every arithmetic operation rounds its exact
  result to the nearest number with a 53-bit significand, ties to even (\<open>fl\<close>). The
  exponent is not bounded: overflow to infinity and subnormal numbers are left out.
\<close>

type_synonym float = rat

definition pow2 :: "int \<Rightarrow> rat" where
  "pow2 e = (if 0 \<le> e then 2 ^ nat e else 1 / 2 ^ nat (- e))"

text \<open>The exponent \<open>e\<close> of a positive rational: \<open>2 ^ e \<le> x < 2 ^ (e + 1)\<close>.\<close>

definition binade :: "rat \<Rightarrow> int" where
  "binade x = (case quotient_of x of (p, q) \<Rightarrow>
     let d = bitlen p - bitlen q in if pow2 d \<le> x then d else d - 1)"

definition round_half_even :: "rat \<Rightarrow> int" where
  "round_half_even x =
     (let f = \<lfloor>x\<rfloor>; r = x - of_int f
      in if r < 1 / 2 then f else if 1 / 2 < r then f + 1 else if even f then f else f + 1)"

definition fl :: "rat \<Rightarrow> float" where
  "fl x = (if x = 0 then 0
           else let s = pow2 (52 - binade \<bar>x\<bar>) in of_int (round_half_even (x * s)) / s)"

definition float_of_int :: "int \<Rightarrow> float" where
  "float_of_int n = fl (of_int n)"

definition fadd :: "float \<Rightarrow> float \<Rightarrow> float" where
  "fadd a b = fl (a + b)"

definition fsub :: "float \<Rightarrow> float \<Rightarrow> float" where
  "fsub a b = fl (a - b)"

definition fmul :: "float \<Rightarrow> float \<Rightarrow> float" where
  "fmul a b = fl (a * b)"

definition fdiv :: "float \<Rightarrow> float \<Rightarrow> float" where
  "fdiv a b = fl (a / b)"

text \<open>\<open>a / b\<close> on Python integers: true division, correctly rounded.\<close>

definition py_truediv :: "int \<Rightarrow> int \<Rightarrow> error + float" where
  "py_truediv a b = (if b = 0 then Inl ZeroDivisionError else Inr (fl (of_int a / of_int b)))"

text \<open>\<open>int(x)\<close> on a float truncates towards zero.\<close>

definition py_int :: "float \<Rightarrow> int" where
  "py_int x = (if 0 \<le> x then \<lfloor>x\<rfloor> else \<lceil>x\<rceil>)"

text \<open>\<open>range(n)\<close>, empty when \<open>n \<le> 0\<close>.\<close>

definition py_range :: "int \<Rightarrow> int list" where
  "py_range n = [0..n - 1]"

section \<open>find_equidistant_points\<close>

text \<open>
  \<^verbatim>\<open>
  points = []
  for i in range(num_points + 1):
      t = i / num_points
      x = x1 * (1 - t) + x2 * t
      y = y1 * (1 - t) + y2 * t
      points.append((x, y))
  return points
  \<close>
\<close>

definition interpolate :: "int \<Rightarrow> int \<Rightarrow> float \<Rightarrow> float" where
  "interpolate a b t =
     fadd (fmul (float_of_int a) (fsub (float_of_int 1) t)) (fmul (float_of_int b) t)"

fun equidistant_loop ::
  "int \<Rightarrow> int \<Rightarrow> int \<Rightarrow> int \<Rightarrow> int \<Rightarrow> int list \<Rightarrow> (float \<times> float) list
    \<Rightarrow> error + (float \<times> float) list" where
  "equidistant_loop x1 y1 x2 y2 num_points [] points = Inr points"
| "equidistant_loop x1 y1 x2 y2 num_points (i # is) points =
     (case py_truediv i num_points of
        Inl e \<Rightarrow> Inl e
      | Inr t \<Rightarrow>
          equidistant_loop x1 y1 x2 y2 num_points is
            (points @ [(interpolate x1 x2 t, interpolate y1 y2 t)]))"

definition find_equidistant_points ::
  "int \<Rightarrow> int \<Rightarrow> int \<Rightarrow> int \<Rightarrow> int \<Rightarrow> error + (float \<times> float) list" where
  "find_equidistant_points x1 y1 x2 y2 num_points =
     equidistant_loop x1 y1 x2 y2 num_points (py_range (num_points + 1)) []"

subsection \<open>Arrays\<close>

text \<open>
  A two-dimensional \<open>ndarray\<close> is the list of its rows. The masks of this module have
  the element type \<open>bool\<close> or \<open>uint8\<close>; \<open>np_truth\<close> is the truth value Python's
  \<open>if\<close> gives an element.
\<close>

datatype ndarray = BoolArray "bool list list" | UInt8Array "8 word list list"

text \<open>
  \<open>a[i, j]\<close> with Python integers: a negative index counts from the end of its axis,
  an index outside \<open>[-n, n)\<close> raises \<open>IndexError\<close>.
\<close>

definition np_getitem2 :: "'a list list \<Rightarrow> int \<Rightarrow> int \<Rightarrow> error + 'a" where
  "np_getitem2 a i j =
     (let h = int (length a)
      in if i < - h \<or> h \<le> i then Inl IndexError
         else let row = a ! nat (if i < 0 then i + h else i); w = int (length row)
              in if j < - w \<or> w \<le> j then Inl IndexError
                 else Inr (row ! nat (if j < 0 then j + w else j)))"

definition np_truth :: "ndarray \<Rightarrow> int \<Rightarrow> int \<Rightarrow> error + bool" where
  "np_truth a i j =
     (case a of
        BoolArray m \<Rightarrow> np_getitem2 m i j
      | UInt8Array m \<Rightarrow>
          (case np_getitem2 m i j of Inl e \<Rightarrow> Inl e | Inr v \<Rightarrow> Inr (v \<noteq> 0)))"

text \<open>\<open>~a\<close> and \<open>np.invert(a)\<close> on a boolean array.\<close>

definition np_invert :: "bool list list \<Rightarrow> bool list list" where
  "np_invert a = map (map Not) a"

text \<open>
  The coordinates of the true elements, in row-major order. \<open>np.where(a)\<close> returns them
  as the array of the row indices and the array of the column indices.
\<close>

definition np_nonzero :: "bool list list \<Rightarrow> (nat \<times> nat) list" where
  "np_nonzero a =
     concat (map (\<lambda>y. map (Pair y) (filter (\<lambda>x. a ! y ! x) [0..<length (a ! y)]))
                 [0..<length a])"

definition np_where :: "bool list list \<Rightarrow> nat list \<times> nat list" where
  "np_where a = (map fst (np_nonzero a), map snd (np_nonzero a))"

text \<open>\<open>a.max()\<close> and \<open>a.min()\<close>: \<open>ValueError\<close> on an array of size zero.\<close>

fun np_max :: "nat list \<Rightarrow> error + nat" where
  "np_max [] = Inl ValueError"
| "np_max (x # xs) = Inr (fold max xs x)"

fun np_min :: "nat list \<Rightarrow> error + nat" where
  "np_min [] = Inl ValueError"
| "np_min (x # xs) = Inr (fold min xs x)"

section \<open>get_seeds\<close>

text \<open>
  \<^verbatim>\<open>
  seed_pixels = []
  for y_coord, x_coord in intersection_coordinates:
      if x_coord < x_min_limit: continue
      if x_coord > x_max_limit: continue
      if y_coord < y_min_limit: continue
      if y_coord > y_max_limit: continue
      if exclusion_mask[y_coord, x_coord]: continue
      seed_pixels.append((x_coord, y_coord))
  return seed_pixels
  \<close>
  The coordinates are \<open>int64\<close> values, the limits \<open>float64\<close> values: a comparison
  converts the coordinate.
\<close>

fun seeds_loop ::
  "float \<Rightarrow> float \<Rightarrow> float \<Rightarrow> float \<Rightarrow> ndarray \<Rightarrow> (nat \<times> nat) list
    \<Rightarrow> (nat \<times> nat) list \<Rightarrow> error + (nat \<times> nat) list" where
  "seeds_loop x_min_limit x_max_limit y_min_limit y_max_limit exclusion_mask [] seed_pixels =
     Inr seed_pixels"
| "seeds_loop x_min_limit x_max_limit y_min_limit y_max_limit exclusion_mask
     ((y_coord, x_coord) # rest) seed_pixels =
     (if float_of_int (int x_coord) < x_min_limit then
        seeds_loop x_min_limit x_max_limit y_min_limit y_max_limit exclusion_mask rest seed_pixels
      else if float_of_int (int x_coord) > x_max_limit then
        seeds_loop x_min_limit x_max_limit y_min_limit y_max_limit exclusion_mask rest seed_pixels
      else if float_of_int (int y_coord) < y_min_limit then
        seeds_loop x_min_limit x_max_limit y_min_limit y_max_limit exclusion_mask rest seed_pixels
      else if float_of_int (int y_coord) > y_max_limit then
        seeds_loop x_min_limit x_max_limit y_min_limit y_max_limit exclusion_mask rest seed_pixels
      else
        (case np_truth exclusion_mask (int y_coord) (int x_coord) of
           Inl e \<Rightarrow> Inl e
         | Inr excluded \<Rightarrow>
             if excluded then
               seeds_loop x_min_limit x_max_limit y_min_limit y_max_limit exclusion_mask rest
                 seed_pixels
             else
               seeds_loop x_min_limit x_max_limit y_min_limit y_max_limit exclusion_mask rest
                 (seed_pixels @ [(x_coord, y_coord)])))"

text \<open>
  The limits of the inner 80 per cent of the mask: \<open>lo + (hi - lo) / 10\<close> and
  \<open>hi - (hi - lo) / 10\<close>, the difference an \<open>int64\<close>, the quotient and the sums
  \<open>float64\<close>.
\<close>

definition min_limit :: "nat \<Rightarrow> nat \<Rightarrow> float" where
  "min_limit lo hi =
     fadd (float_of_int (int lo)) (fdiv (float_of_int (int hi - int lo)) (float_of_int 10))"

definition max_limit :: "nat \<Rightarrow> nat \<Rightarrow> float" where
  "max_limit lo hi =
     fsub (float_of_int (int hi)) (fdiv (float_of_int (int hi - int lo)) (float_of_int 10))"

text \<open>
  \<open>intersection_coordinates\<close> is a Python set, which the loop visits in an order the
  language leaves open; the model visits it in the row-major order of \<open>np.where\<close>. The
  properties below are about which coordinates are returned, not about their order.
\<close>

definition get_seeds ::
  "bool list list \<Rightarrow> bool list list \<Rightarrow> ndarray \<Rightarrow> error + (nat \<times> nat) list" where
  "get_seeds image_array mask_array exclusion_mask =
     (case np_where mask_array of (mask_y_values, mask_x_values) \<Rightarrow>
      case np_max mask_y_values of Inl e \<Rightarrow> Inl e | Inr y_max \<Rightarrow>
      case np_min mask_y_values of Inl e \<Rightarrow> Inl e | Inr y_min \<Rightarrow>
      case np_max mask_x_values of Inl e \<Rightarrow> Inl e | Inr x_max \<Rightarrow>
      case np_min mask_x_values of Inl e \<Rightarrow> Inl e | Inr x_min \<Rightarrow>
        let x_min_limit = min_limit x_min x_max;
            x_max_limit = max_limit x_min x_max;
            y_min_limit = min_limit y_min y_max;
            y_max_limit = max_limit y_min y_max;
            mask_coordinates = zip mask_y_values mask_x_values
        in case np_where (np_invert image_array) of (image_y_values, image_x_values) \<Rightarrow>
          let image_coordinates = zip image_y_values image_x_values;
              intersection_coordinates =
                filter (\<lambda>c. c \<in> set image_coordinates) mask_coordinates
          in seeds_loop x_min_limit x_max_limit y_min_limit y_max_limit exclusion_mask
               intersection_coordinates [])"

section \<open>detect_horizontal_and_vertical_lines\<close>

text \<open>
  \<open>~image * 255\<close> followed by \<open>astype("uint8")\<close>: the inverted boolean array, its
  product with the integer 255 (an \<open>int64\<close> array), and the conversion to \<open>uint8\<close>.
  Both line detectors start with these two statements (\<open>inverted_uint8\<close>).
\<close>

definition np_times :: "bool list list \<Rightarrow> int \<Rightarrow> int list list" where
  "np_times a k = map (map (\<lambda>b. (if b then 1 else 0) * k)) a"

definition astype_uint8 :: "int list list \<Rightarrow> 8 word list list" where
  "astype_uint8 a = map (map word_of_int) a"

definition inverted_uint8 :: "bool list list \<Rightarrow> 8 word list list" where
  "inverted_uint8 img = astype_uint8 (np_times (np_invert img) 255)"

definition astype_bool :: "8 word list list \<Rightarrow> bool list list" where
  "astype_bool a = map (map (\<lambda>v. v \<noteq> 0)) a"

definition np_eq :: "8 word list list \<Rightarrow> 8 word \<Rightarrow> bool list list" where
  "np_eq a v = map (map (\<lambda>u. u = v)) a"

definition zeros_like :: "8 word list list \<Rightarrow> 8 word list list" where
  "zeros_like a = map (map (\<lambda>_. 0)) a"

definition np_shape :: "'a list list \<Rightarrow> nat list" where
  "np_shape a = map length a"

text \<open>
  \<open>a + b\<close> on boolean arrays is the elementwise disjunction. Operands of different shapes
  raise \<open>ValueError\<close>; the broadcasting of an axis of length one is left out, since both
  operands below come from \<open>cv2.morphologyEx\<close> on the same image.
\<close>

definition np_add_bool :: "bool list list \<Rightarrow> bool list list \<Rightarrow> error + bool list list" where
  "np_add_bool a b =
     (if np_shape a = np_shape b then Inr (map2 (map2 (\<or>)) a b) else Inl ValueError)"

datatype morph_shape = MORPH_RECT

datatype morph_op = MORPH_OPEN

text \<open>
  \<open>cv2.getStructuringElement\<close> and \<open>cv2.morphologyEx\<close> are functions of OpenCV; they are
  parameters of the model. The size of a kernel is given as (width, height).
\<close>

definition detect_horizontal_and_vertical_lines ::
  "(morph_shape \<Rightarrow> int \<times> int \<Rightarrow> 'k) \<Rightarrow>
   (8 word list list \<Rightarrow> morph_op \<Rightarrow> 'k \<Rightarrow> nat \<Rightarrow> 8 word list list) \<Rightarrow>
   bool list list \<Rightarrow> int \<times> int \<Rightarrow> error + bool list list" where
  "detect_horizontal_and_vertical_lines getStructuringElement morphologyEx img
     max_depiction_size =
     (let binarised_im = inverted_uint8 img;
          structure_height = fst max_depiction_size;
          structure_width = snd max_depiction_size;
          horizontal_kernel = getStructuringElement MORPH_RECT (structure_width, 1);
          horizontal_mask =
            np_eq (morphologyEx binarised_im MORPH_OPEN horizontal_kernel 2) 255;
          vertical_kernel = getStructuringElement MORPH_RECT (1, structure_height);
          vertical_mask =
            np_eq (morphologyEx binarised_im MORPH_OPEN vertical_kernel 2) 255
      in np_add_bool horizontal_mask vertical_mask)"

section \<open>detect_lines\<close>

type_synonym line = "int \<times> int \<times> int \<times> int"

text \<open>
  \<^verbatim>\<open>
  points_in_structure = False
  for x, y in points[1:-1]:
      if segmentation_mask[int(y), int(x)]:
          points_in_structure = True
          break
  \<close>
\<close>

fun points_in_structure_loop ::
  "bool list list \<Rightarrow> (float \<times> float) list \<Rightarrow> error + bool" where
  "points_in_structure_loop segmentation_mask [] = Inr False"
| "points_in_structure_loop segmentation_mask ((x, y) # rest) =
     (case np_getitem2 segmentation_mask (py_int y) (py_int x) of
        Inl e \<Rightarrow> Inl e
      | Inr inside \<Rightarrow>
          if inside then Inr True else points_in_structure_loop segmentation_mask rest)"

text \<open>\<open>points[1:-1]\<close>: the list without its first and its last element.\<close>

definition inner_points :: "'a list \<Rightarrow> 'a list" where
  "inner_points points = butlast (drop 1 points)"

text \<open>
  The loop over the detected lines. \<open>cv2.line(exclusion_mask, (x1, y1), (x2, y2), 255, 3)\<close>
  draws into the array it is given; the model passes the array through. \<open>cv2.line\<close> is a
  parameter.
\<close>

fun lines_loop ::
  "(8 word list list \<Rightarrow> int \<times> int \<Rightarrow> int \<times> int \<Rightarrow> 8 word \<Rightarrow> nat \<Rightarrow> 8 word list list) \<Rightarrow>
   bool list list \<Rightarrow> line list \<Rightarrow> 8 word list list \<Rightarrow> error + 8 word list list" where
  "lines_loop cv_line segmentation_mask [] exclusion_mask = Inr exclusion_mask"
| "lines_loop cv_line segmentation_mask ((x1, y1, x2, y2) # rest) exclusion_mask =
     (case find_equidistant_points x1 y1 x2 y2 7 of
        Inl e \<Rightarrow> Inl e
      | Inr points \<Rightarrow>
          (case points_in_structure_loop segmentation_mask (inner_points points) of
             Inl e \<Rightarrow> Inl e
           | Inr points_in_structure \<Rightarrow>
               if points_in_structure then
                 lines_loop cv_line segmentation_mask rest exclusion_mask
               else
                 lines_loop cv_line segmentation_mask rest
                   (cv_line exclusion_mask (x1, y1) (x2, y2) 255 3)))"

text \<open>
  \<open>HoughLinesP\<close> stands for \<open>cv2.HoughLinesP\<close> with \<open>rho = 1\<close>, \<open>theta = np.pi / 180\<close>,
  \<open>threshold = 5\<close> and \<open>maxLineGap = 10\<close>; its arguments here are the image and
  \<open>minLineLength\<close>. It returns \<open>None\<close> when it finds no line, and otherwise the lines
  as quadruples \<open>(x1, y1, x2, y2)\<close>.
\<close>

definition detect_lines ::
  "(8 word list list \<Rightarrow> int \<Rightarrow> line list option) \<Rightarrow>
   (8 word list list \<Rightarrow> int \<times> int \<Rightarrow> int \<times> int \<Rightarrow> 8 word \<Rightarrow> nat \<Rightarrow> 8 word list list) \<Rightarrow>
   bool list list \<Rightarrow> int \<times> int \<Rightarrow> bool list list \<Rightarrow> error + ndarray" where
  "detect_lines HoughLinesP cv_line img max_depiction_size segmentation_mask =
     (let image' = inverted_uint8 img
      in case py_truediv (max (fst max_depiction_size) (snd max_depiction_size)) 4 of
           Inl e \<Rightarrow> Inl e
         | Inr quarter \<Rightarrow>
             let lines = HoughLinesP image' (py_int quarter);
                 exclusion_mask = zeros_like image'
             in (case lines of
                   None \<Rightarrow> Inr (UInt8Array exclusion_mask)
                 | Some ls \<Rightarrow>
                     (case lines_loop cv_line segmentation_mask ls exclusion_mask of
                        Inl e \<Rightarrow> Inl e
                      | Inr drawn \<Rightarrow> Inr (BoolArray (astype_bool drawn)))))"

section \<open>complete_structure_mask\<close>

text \<open>
  Modelled from the spec: \<open>binary_erosion\<close> and \<open>binary_dilation\<close> are functions of
  scikit-image, not of this repository. An erosion keeps a pixel when the structuring
  element, centred on it, lies inside the foreground; a dilation sets a pixel when the
  structuring element centred on some foreground pixel covers it. scikit-image takes the
  pixels outside the image as foreground in an erosion and as background in a dilation.
\<close>

definition footprint_offsets :: "bool list list \<Rightarrow> (int \<times> int) list" where
  "footprint_offsets selem =
     concat (map (\<lambda>i. map (\<lambda>j. (int i - int (length selem div 2),
                                 int j - int (length (selem ! i) div 2)))
                          (filter (\<lambda>j. selem ! i ! j) [0..<length (selem ! i)]))
                 [0..<length selem])"

definition pixel_or :: "bool \<Rightarrow> bool list list \<Rightarrow> int \<Rightarrow> int \<Rightarrow> bool" where
  "pixel_or border a y x =
     (if 0 \<le> y \<and> y < int (length a) \<and> 0 \<le> x \<and> x < int (length (a ! nat y))
      then a ! nat y ! nat x else border)"

definition binary_erosion :: "bool list list \<Rightarrow> bool list list \<Rightarrow> bool list list" where
  "binary_erosion img selem =
     map (\<lambda>y. map (\<lambda>x. list_all (\<lambda>(dy, dx). pixel_or True img (int y + dy) (int x + dx))
                            (footprint_offsets selem))
                   [0..<length (img ! y)])
         [0..<length img]"

definition binary_dilation :: "bool list list \<Rightarrow> bool list list \<Rightarrow> bool list list" where
  "binary_dilation img selem =
     map (\<lambda>y. map (\<lambda>x. list_ex (\<lambda>(dy, dx). pixel_or False img (int y - dy) (int x - dx))
                            (footprint_offsets selem))
                   [0..<length (img ! y)])
         [0..<length img]"

text \<open>\<open>np.ones((5, 5))\<close> as a structuring element.\<close>

definition np_ones :: "nat \<times> nat \<Rightarrow> bool list list" where
  "np_ones s = replicate (fst s) (replicate (snd s) True)"

definition complete_structure_mask :: "bool list list \<Rightarrow> bool list list" where
  "complete_structure_mask img =
     (let structure_mask =
            binary_dilation (binary_erosion img (np_ones (5, 5))) (np_ones (5, 5))
      in structure_mask)"

section \<open>binarize_image and detect_chemical_structures\<close>

text \<open>
  An input image is a two-dimensional array of intensities or a three-dimensional array
  with the channels as its last axis. \<open>rgb2gray\<close> and \<open>threshold_otsu\<close> are functions
  of scikit-image and parameters of the model.
\<close>

datatype 'v image = Gray "'v list list" | Colour "'v list list list"

definition shape0 :: "'v image \<Rightarrow> int" where
  "shape0 im = (case im of Gray a \<Rightarrow> int (length a) | Colour a \<Rightarrow> int (length a))"

definition shape1 :: "'v image \<Rightarrow> int" where
  "shape1 im =
     (case im of
        Gray a \<Rightarrow> (case a of [] \<Rightarrow> 0 | row # _ \<Rightarrow> int (length row))
      | Colour a \<Rightarrow> (case a of [] \<Rightarrow> 0 | row # _ \<Rightarrow> int (length row)))"

datatype threshold = Str string | Num float

definition np_greater :: "float list list \<Rightarrow> float \<Rightarrow> bool list list" where
  "np_greater a v = map (map (\<lambda>u. v < u)) a"

definition binarize_image ::
  "('v image \<Rightarrow> float list list) \<Rightarrow> (float list list \<Rightarrow> float) \<Rightarrow>
   'v image \<Rightarrow> threshold \<Rightarrow> error + bool list list" where
  "binarize_image rgb2gray threshold_otsu image_array threshold =
     (let grayscale = rgb2gray image_array
      in case threshold of
           Str s \<Rightarrow>
             if s = ''otsu'' then Inr (np_greater grayscale (threshold_otsu grayscale))
             else Inl TypeError
         | Num v \<Rightarrow> Inr (np_greater grayscale v))"

definition detect_chemical_structures ::
  "('v image \<Rightarrow> float list list) \<Rightarrow> (float list list \<Rightarrow> float) \<Rightarrow>
   (8 word list list \<Rightarrow> int \<Rightarrow> line list option) \<Rightarrow>
   (8 word list list \<Rightarrow> int \<times> int \<Rightarrow> int \<times> int \<Rightarrow> 8 word \<Rightarrow> nat \<Rightarrow> 8 word list list) \<Rightarrow>
   'v image \<Rightarrow> error + (bool list list \<times> ndarray)" where
  "detect_chemical_structures rgb2gray threshold_otsu HoughLinesP cv_line img =
     (case binarize_image rgb2gray threshold_otsu img (Str ''otsu'') of
        Inl e \<Rightarrow> Inl e
      | Inr binarized_image \<Rightarrow>
          let structure_mask = complete_structure_mask binarized_image;
              max_depiction_size = (shape0 img div 10, shape1 img div 10)
          in (case detect_lines HoughLinesP cv_line (np_invert structure_mask)
                     max_depiction_size structure_mask of
                Inl e \<Rightarrow> Inl e
              | Inr exclusion_mask \<Rightarrow> Inr (structure_mask, exclusion_mask)))"

section \<open>Notions of the statements\<close>

text \<open>The coordinates \<open>(y, x)\<close> of the true pixels of a mask, and their bounding box.\<close>

definition true_pixels :: "bool list list \<Rightarrow> (nat \<times> nat) set" where
  "true_pixels a = {(y, x). y < length a \<and> x < length (a ! y) \<and> a ! y ! x}"

definition bbox_x_min :: "bool list list \<Rightarrow> nat" where
  "bbox_x_min mask_array = Min (snd ` true_pixels mask_array)"

definition bbox_x_max :: "bool list list \<Rightarrow> nat" where
  "bbox_x_max mask_array = Max (snd ` true_pixels mask_array)"

definition bbox_y_min :: "bool list list \<Rightarrow> nat" where
  "bbox_y_min mask_array = Min (fst ` true_pixels mask_array)"

definition bbox_y_max :: "bool list list \<Rightarrow> nat" where
  "bbox_y_max mask_array = Max (fst ` true_pixels mask_array)"

definition shrunk_range :: "nat \<Rightarrow> nat \<Rightarrow> nat \<Rightarrow> bool" where
  "shrunk_range lo hi v =
     (rat_of_nat lo + (rat_of_nat hi - rat_of_nat lo) / 10 \<le> rat_of_nat v \<and>
      rat_of_nat v \<le> rat_of_nat hi - (rat_of_nat hi - rat_of_nat lo) / 10)"

definition inner_window :: "bool list list \<Rightarrow> nat \<Rightarrow> nat \<Rightarrow> bool" where
  "inner_window mask_array x y =
     (shrunk_range (bbox_x_min mask_array) (bbox_x_max mask_array) x \<and>
      shrunk_range (bbox_y_min mask_array) (bbox_y_max mask_array) y)"

text \<open>
  The points that \<open>detect_lines\<close> computes for a segment, the pixel at which each is
  tested, and the test. These are the values of the code: \<open>sample_point\<close> is the result of
  the rounded binary64 interpolation of \<open>find_equidistant_points\<close>, and the pixel is its
  truncation by \<open>int\<close>. They need not be the points of the segment; those are
  \<open>exact_sample_point\<close> below.
\<close>

definition sample_point :: "line \<Rightarrow> int \<Rightarrow> float \<times> float" where
  "sample_point l i =
     (case l of (x1, y1, x2, y2) \<Rightarrow>
        (interpolate x1 x2 (fl (of_int i / 7)), interpolate y1 y2 (fl (of_int i / 7))))"

definition sampled_points :: "line \<Rightarrow> (float \<times> float) list" where
  "sampled_points l = map (sample_point l) [1, 2, 3, 4, 5, 6]"

definition inside_mask :: "bool list list \<Rightarrow> float \<times> float \<Rightarrow> bool" where
  "inside_mask segmentation_mask p =
     (np_getitem2 segmentation_mask (py_int (snd p)) (py_int (fst p)) = Inr True)"

definition any_sample_inside :: "bool list list \<Rightarrow> line \<Rightarrow> bool" where
  "any_sample_inside segmentation_mask l = list_ex (inside_mask segmentation_mask) (sampled_points l)"

definition sampled_pixels :: "line \<Rightarrow> (int \<times> int) list" where
  "sampled_pixels l = map (\<lambda>p. (py_int (fst p), py_int (snd p))) (sampled_points l)"

definition index_ok :: "bool list list \<Rightarrow> float \<times> float \<Rightarrow> bool" where
  "index_ok segmentation_mask p =
     (case np_getitem2 segmentation_mask (py_int (snd p)) (py_int (fst p)) of
        Inl e \<Rightarrow> False | Inr b \<Rightarrow> True)"


text \<open>
  The sampled points as the specification has them: the points of the segment at the
  parameters \<open>t = i / 7\<close> for \<open>i = 1, ..., 6\<close>, in exact arithmetic. Such a point falls
  inside the mask when the pixel that holds it is a true pixel of the mask.
\<close>

definition exact_sample_point :: "line \<Rightarrow> int \<Rightarrow> rat \<times> rat" where
  "exact_sample_point l i =
     (case l of (x1, y1, x2, y2) \<Rightarrow>
        (of_int x1 + (of_int x2 - of_int x1) * (of_int i / 7),
         of_int y1 + (of_int y2 - of_int y1) * (of_int i / 7)))"

definition exact_sample_points :: "line \<Rightarrow> (rat \<times> rat) list" where
  "exact_sample_points l = map (exact_sample_point l) [1, 2, 3, 4, 5, 6]"

definition point_in_mask :: "bool list list \<Rightarrow> rat \<times> rat \<Rightarrow> bool" where
  "point_in_mask segmentation_mask p =
     (0 \<le> fst p \<and> 0 \<le> snd p \<and> nat \<lfloor>snd p\<rfloor> < length segmentation_mask \<and>
      nat \<lfloor>fst p\<rfloor> < length (segmentation_mask ! nat \<lfloor>snd p\<rfloor>) \<and>
      segmentation_mask ! nat \<lfloor>snd p\<rfloor> ! nat \<lfloor>fst p\<rfloor>)"

definition any_exact_sample_inside :: "bool list list \<Rightarrow> line \<Rightarrow> bool" where
  "any_exact_sample_inside segmentation_mask l =
     list_ex (point_in_mask segmentation_mask) (exact_sample_points l)"


text \<open>A mask of \<open>h\<close> rows and \<open>w\<close> columns that is true at row \<open>y\<close>, column \<open>x\<close> only.\<close>

definition single_true :: "nat \<Rightarrow> nat \<Rightarrow> nat \<Rightarrow> nat \<Rightarrow> bool list list" where
  "single_true h w y x = (replicate h (replicate w False))[y := (replicate w False)[x := True]]"

text \<open>The call of \<open>cv2.line\<close> in \<open>detect_lines\<close>, and the call of \<open>cv2.HoughLinesP\<close>.\<close>

definition draw :: "(8 word list list \<Rightarrow> int \<times> int \<Rightarrow> int \<times> int \<Rightarrow> 8 word \<Rightarrow> nat \<Rightarrow> 8 word list list) \<Rightarrow>
   line \<Rightarrow> 8 word list list \<Rightarrow> 8 word list list" where
  "draw cv_line l m = (case l of (x1, y1, x2, y2) \<Rightarrow> cv_line m (x1, y1) (x2, y2) 255 3)"

definition min_line_length :: "int \<times> int \<Rightarrow> int" where
  "min_line_length max_depiction_size =
     py_int (fl (of_int (max (fst max_depiction_size) (snd max_depiction_size)) / 4))"

definition detected_lines ::
  "(8 word list list \<Rightarrow> int \<Rightarrow> line list option) \<Rightarrow> bool list list \<Rightarrow> int \<times> int
    \<Rightarrow> line list option" where
  "detected_lines HoughLinesP img max_depiction_size =
     HoughLinesP (inverted_uint8 img) (min_line_length max_depiction_size)"

text \<open>
  An array of \<open>h\<close> rows of \<open>w\<close> elements each, and a segment with both endpoints in
  such an array.
\<close>

definition rectangular :: "nat \<Rightarrow> nat \<Rightarrow> 'a list list \<Rightarrow> bool" where
  "rectangular h w a = (length a = h \<and> list_all (\<lambda>row. length row = w) a)"

definition line_in_bounds :: "nat \<Rightarrow> nat \<Rightarrow> line \<Rightarrow> bool" where
  "line_in_bounds h w l =
     (case l of (x1, y1, x2, y2) \<Rightarrow>
        0 \<le> x1 \<and> x1 < int w \<and> 0 \<le> x2 \<and> x2 < int w \<and>
        0 \<le> y1 \<and> y1 < int h \<and> 0 \<le> y2 \<and> y2 < int h)"

text \<open>
  A rectangular kernel of the given numbers of rows and columns; OpenCV takes the size
  as (width, height).
\<close>

definition rect_kernel :: "(morph_shape \<Rightarrow> int \<times> int \<Rightarrow> 'k) \<Rightarrow> int \<Rightarrow> int \<Rightarrow> 'k" where
  "rect_kernel getStructuringElement rows cols = getStructuringElement MORPH_RECT (cols, rows)"

text \<open>
  Example inputs: a filled and a blank square mask, a white image with one pixel of ink,
  and a drawing function that marks the pixels of a horizontal segment, for the instances
  in which \<open>cv_line\<close> has to be a concrete function.
\<close>

definition filled_square :: "nat \<Rightarrow> bool list list" where
  "filled_square n = replicate n (replicate n True)"

definition blank_square :: "nat \<Rightarrow> bool list list" where
  "blank_square n = replicate n (replicate n False)"

definition single_ink :: "nat \<Rightarrow> nat \<Rightarrow> nat \<Rightarrow> bool list list" where
  "single_ink n y x = (replicate n (replicate n True))[y := (replicate n True)[x := False]]"

definition mark_segment ::
  "8 word list list \<Rightarrow> int \<times> int \<Rightarrow> int \<times> int \<Rightarrow> 8 word \<Rightarrow> nat \<Rightarrow> 8 word list list" where
  "mark_segment m p q colour thickness =
     m[nat (snd p) :=
         map (\<lambda>x. if fst p \<le> int x \<and> int x \<le> fst q then colour else m ! nat (snd p) ! x)
           [0..<length (m ! nat (snd p))]]"

section \<open>Rounding\<close>

lemma pow2_powi: "pow2 e = 2 powi e"
  by (simp add: pow2_def power_int_def inverse_eq_divide power_one_over)

lemma pow2_pos [simp]: "0 < pow2 e"
  by (simp add: pow2_powi)

lemma pow2_nonzero [simp]: "pow2 e \<noteq> 0"
  by (simp add: pow2_powi)

lemma pow2_add: "pow2 (a + b) = pow2 a * pow2 b"
  by (simp add: pow2_powi power_int_add)

lemma pow2_mono: "a \<le> b \<Longrightarrow> pow2 a \<le> pow2 b"
  by (simp add: pow2_powi power_int_increasing)

lemma pow2_nat: "0 \<le> e \<Longrightarrow> pow2 e = of_int (2 ^ nat e)"
  by (simp add: pow2_def)

lemma binade_lower:
  assumes "0 < x"
  shows "pow2 (binade x) \<le> x"
proof -
  obtain p q where pq: "quotient_of x = (p, q)" by (cases "quotient_of x")
  then have q: "0 < q" by (rule quotient_of_denom_pos)
  from pq have x: "x = of_int p / of_int q" by (simp add: quotient_of_div)
  with assms q have p: "0 < p" by (simp add: zero_less_divide_iff)
  let ?d = "bitlen p - bitlen q"
  show ?thesis
  proof (cases "pow2 ?d \<le> x")
    case True
    with pq show ?thesis by (simp add: binade_def)
  next
    case False
    with pq have b: "binade x = ?d - 1" by (simp add: binade_def)
    have bp: "1 \<le> bitlen p" and bq: "1 \<le> bitlen q"
      using p q by (auto simp: bitlen_alt_def)
    have "(2::int) ^ nat (bitlen p - 1) \<le> p" using bitlen_bounds [OF p] by simp
    then have "rat_of_int (2 ^ nat (bitlen p - 1)) \<le> of_int p" by (simp only: of_int_le_iff)
    then have lo: "pow2 (bitlen p - 1) \<le> of_int p" using bp by (simp add: pow2_nat)
    have "q < 2 ^ nat (bitlen q)" using bitlen_bounds [OF q] by simp
    then have "rat_of_int q < of_int (2 ^ nat (bitlen q))" by (simp only: of_int_less_iff)
    then have hi: "of_int q \<le> pow2 (bitlen q)" using bq by (simp add: pow2_nat)
    have "pow2 (?d - 1) * of_int q \<le> pow2 (?d - 1) * pow2 (bitlen q)"
      using hi by (simp add: mult_left_mono less_imp_le)
    also have "\<dots> = pow2 (bitlen p - 1)"
      by (simp add: pow2_add [symmetric])
    also note lo
    finally have "pow2 (?d - 1) \<le> of_int p / of_int q"
      using q by (simp add: pos_le_divide_eq)
    with b x show ?thesis by simp
  qed
qed

lemma round_half_even_error: "\<bar>of_int (round_half_even x) - x\<bar> \<le> 1 / 2"
proof -
  have "of_int \<lfloor>x\<rfloor> \<le> x" "x < of_int \<lfloor>x\<rfloor> + 1" by linarith+
  then show ?thesis
    by (auto simp: round_half_even_def Let_def)
qed

lemma round_half_even_of_int [simp]: "round_half_even (of_int n) = n"
  by (simp add: round_half_even_def)

lemma fl_0 [simp]: "fl 0 = 0"
  by (simp add: fl_def)

text \<open>The exponent that \<open>binade\<close> computes is the one of the binary representation.\<close>

lemma binade_upper:
  assumes "0 < x"
  shows "x < pow2 (binade x + 1)"
proof -
  obtain p q where pq: "quotient_of x = (p, q)" by (cases "quotient_of x")
  then have q: "0 < q" by (rule quotient_of_denom_pos)
  from pq have x: "x = of_int p / of_int q" by (simp add: quotient_of_div)
  with assms q have p: "0 < p" by (simp add: zero_less_divide_iff)
  let ?d = "bitlen p - bitlen q"
  show ?thesis
  proof (cases "pow2 ?d \<le> x")
    case False
    with pq show ?thesis by (simp add: binade_def)
  next
    case True
    with pq have b: "binade x = ?d" by (simp add: binade_def)
    have bp: "1 \<le> bitlen p" and bq: "1 \<le> bitlen q"
      using p q by (auto simp: bitlen_alt_def)
    have "p < 2 ^ nat (bitlen p)" using bitlen_bounds [OF p] by simp
    then have "rat_of_int p < of_int (2 ^ nat (bitlen p))" by (simp only: of_int_less_iff)
    then have hi: "of_int p < pow2 (bitlen p)" using bp by (simp add: pow2_nat)
    have "(2::int) ^ nat (bitlen q - 1) \<le> q" using bitlen_bounds [OF q] by simp
    then have "rat_of_int (2 ^ nat (bitlen q - 1)) \<le> of_int q" by (simp only: of_int_le_iff)
    then have lo: "pow2 (bitlen q - 1) \<le> of_int q" using bq by (simp add: pow2_nat)
    note hi
    also have "pow2 (bitlen p) = pow2 (?d + 1) * pow2 (bitlen q - 1)"
      by (simp add: pow2_add [symmetric])
    also have "\<dots> \<le> pow2 (?d + 1) * of_int q"
      using lo by (simp add: mult_left_mono less_imp_le)
    finally have "of_int p / of_int q < pow2 (?d + 1)"
      using q by (simp add: pos_divide_less_eq)
    with b x show ?thesis by simp
  qed
qed

text \<open>The relative error of a rounding is at most \<open>2 ^ - 53\<close>.\<close>

lemma fl_error: "\<bar>fl x - x\<bar> \<le> \<bar>x\<bar> / 2 ^ 53"
proof (cases "x = 0")
  case True
  then show ?thesis by simp
next
  case False
  let ?e = "binade \<bar>x\<bar>"
  let ?s = "pow2 (52 - ?e)"
  have s: "0 < ?s" by simp
  have s0: "?s \<noteq> 0" by simp
  have fl: "fl x = of_int (round_half_even (x * ?s)) / ?s"
    using False by (simp add: fl_def Let_def)
  have "fl x - x = (of_int (round_half_even (x * ?s)) - x * ?s) / ?s"
    using s0 by (simp add: fl diff_divide_distrib)
  then have "\<bar>fl x - x\<bar> = \<bar>of_int (round_half_even (x * ?s)) - x * ?s\<bar> / ?s"
    using s by (simp only: abs_divide abs_of_pos)
  also have "\<dots> \<le> (1 / 2) / ?s"
    by (rule divide_right_mono [OF round_half_even_error less_imp_le [OF s]])
  also have "\<dots> = pow2 ?e / 2 ^ 53"
  proof -
    have "pow2 ?e * ?s = pow2 52" by (simp add: pow2_add [symmetric])
    also have "\<dots> = 2 ^ 52" by (simp add: pow2_def)
    finally have "pow2 ?e * ?s = 2 ^ 52" .
    then show ?thesis using s by (simp add: field_simps)
  qed
  also have "\<dots> \<le> \<bar>x\<bar> / 2 ^ 53"
    using binade_lower [of "\<bar>x\<bar>"] False by (simp add: divide_right_mono)
  finally show ?thesis .
qed

lemma fl_nonneg_bounds:
  assumes "0 \<le> x"
  shows "x - x / 9007199254740992 \<le> fl x" and "fl x \<le> x + x / 9007199254740992"
proof -
  have "\<bar>fl x - x\<bar> \<le> x / 9007199254740992"
    using fl_error [of x] assms by simp
  then have "fl x - x \<le> x / 9007199254740992" and "- (fl x - x) \<le> x / 9007199254740992"
    by (simp_all only: abs_le_iff)
  then show "x - x / 9007199254740992 \<le> fl x" and "fl x \<le> x + x / 9007199254740992"
    by simp_all
qed

lemma fl_nonneg: "0 \<le> x \<Longrightarrow> 0 \<le> fl x"
proof -
  assume x: "0 \<le> x"
  then have "0 \<le> x - x / 9007199254740992" by (simp add: field_simps)
  also have "\<dots> \<le> fl x" by (rule fl_nonneg_bounds(1) [OF x])
  finally show ?thesis .
qed

text \<open>An integer below \<open>2 ^ 53\<close> in absolute value is a float.\<close>

lemma fl_of_int:
  assumes "\<bar>n\<bar> < 2 ^ 53"
  shows "fl (of_int n) = of_int n"
proof (cases "n = 0")
  case True
  then show ?thesis by simp
next
  case False
  let ?e = "binade \<bar>rat_of_int n\<bar>"
  have "pow2 ?e \<le> \<bar>of_int n\<bar>" using False by (simp add: binade_lower)
  also have "\<dots> < pow2 53" using assms
    by (simp add: pow2_def flip: of_int_abs)
  finally have "\<not> pow2 53 \<le> pow2 ?e" by simp
  then have e: "?e \<le> 52" using pow2_mono [of 53 ?e] by linarith
  then have "pow2 (52 - ?e) = of_int (2 ^ nat (52 - ?e))" by (simp add: pow2_nat)
  then have "of_int n * pow2 (52 - ?e) = rat_of_int (n * 2 ^ nat (52 - ?e))" by simp
  then have "round_half_even (of_int n * pow2 (52 - ?e)) = n * 2 ^ nat (52 - ?e)"
    by (simp only: round_half_even_of_int)
  then show ?thesis
    using False e by (simp add: fl_def Let_def pow2_nat)
qed

lemma float_of_int_exact: "\<bar>n\<bar> < 2 ^ 53 \<Longrightarrow> float_of_int n = of_int n"
  by (simp add: float_of_int_def fl_of_int)

text \<open>
  The limits of the inner window, compared with an integer coordinate below \<open>2 ^ 31\<close>:
  the rounded comparison of the code agrees with the exact one.
\<close>

lemma min_limit_iff:
  assumes "lo \<le> hi" and "hi < 2 ^ 31" and "x < 2 ^ 31"
  shows "min_limit lo hi \<le> float_of_int (int x) \<longleftrightarrow> 10 * lo + (hi - lo) \<le> 10 * x"
proof -
  define d where "d = hi - lo"
  have d: "d < 2 ^ 31" "lo < 2 ^ 31" "int hi - int lo = int d"
    using assms by (simp_all add: d_def)
  define q where "q = fl (of_nat d / 10)"
  define m where "m = fl (of_nat lo + q)"
  have ex: "float_of_int (int x) = of_nat x" "float_of_int (int lo) = of_nat lo"
    "float_of_int (int d) = of_nat d" "float_of_int 10 = 10"
    using assms d by (simp_all add: float_of_int_exact)
  have lim: "min_limit lo hi = m"
    by (simp add: min_limit_def fadd_def fdiv_def ex d m_def q_def)
  have q1: "rat_of_nat d / 10 - rat_of_nat d / 10 / 9007199254740992 \<le> q"
    and q2: "q \<le> rat_of_nat d / 10 + rat_of_nat d / 10 / 9007199254740992"
    unfolding q_def by (rule fl_nonneg_bounds, simp)+
  have q0: "0 \<le> q" using q1 by linarith
  then have lq: "0 \<le> rat_of_nat lo + q" by simp
  have m1: "(of_nat lo + q) - (of_nat lo + q) / 9007199254740992 \<le> m"
    and m2: "m \<le> (of_nat lo + q) + (of_nat lo + q) / 9007199254740992"
    unfolding m_def by (rule fl_nonneg_bounds [OF lq])+
  have "rat_of_nat d < of_nat (2 ^ 31)" "rat_of_nat lo < of_nat (2 ^ 31)"
    using d by (simp_all only: of_nat_less_iff)
  then have bd: "rat_of_nat d < 2147483648" "rat_of_nat lo < 2147483648"
    by simp_all
  show ?thesis
  proof
    assume "min_limit lo hi \<le> float_of_int (int x)"
    then have le: "m \<le> of_nat x" by (simp add: lim ex)
    show "10 * lo + (hi - lo) \<le> 10 * x"
    proof (rule ccontr)
      assume "\<not> 10 * lo + (hi - lo) \<le> 10 * x"
      then have "10 * x + 1 \<le> 10 * lo + d" by (simp add: d_def)
      then have "rat_of_nat (10 * x + 1) \<le> of_nat (10 * lo + d)" by (simp only: of_nat_le_iff)
      then have "10 * rat_of_nat x + 1 \<le> 10 * of_nat lo + of_nat d" by simp
      with le q1 m1 bd show False by (simp add: field_simps)
    qed
  next
    assume a: "10 * lo + (hi - lo) \<le> 10 * x"
    have "m \<le> of_nat x"
    proof (cases "10 dvd d")
      case True
      then obtain k where k: "d = 10 * k" ..
      have "q = of_int (int k)" unfolding q_def using d k
        by (simp add: fl_of_int [of "int k", simplified])
      then have "m = fl (of_int (int (lo + k)))" by (simp add: m_def)
      also have "\<dots> = of_int (int (lo + k))"
        using d k by (intro fl_of_int) simp
      finally show ?thesis using a k by (simp add: d_def)
    next
      case False
      with a have "10 * lo + d \<noteq> 10 * x"
        by (metis dvd_add_right_iff dvd_triv_left)
      with a have "10 * lo + d + 1 \<le> 10 * x" by (simp add: d_def)
      then have "rat_of_nat (10 * lo + d + 1) \<le> of_nat (10 * x)" by (simp only: of_nat_le_iff)
      then have "10 * rat_of_nat lo + of_nat d + 1 \<le> 10 * of_nat x" by simp
      with q2 m2 bd show ?thesis by (simp add: field_simps)
    qed
    then show "min_limit lo hi \<le> float_of_int (int x)" by (simp add: lim ex)
  qed
qed

lemma max_limit_iff:
  assumes "lo \<le> hi" and "hi < 2 ^ 31" and "x < 2 ^ 31"
  shows "float_of_int (int x) \<le> max_limit lo hi \<longleftrightarrow> 10 * x + (hi - lo) \<le> 10 * hi"
proof -
  define d where "d = hi - lo"
  have d: "d < 2 ^ 31" "d \<le> hi" "int hi - int lo = int d"
    using assms by (simp_all add: d_def)
  define q where "q = fl (of_nat d / 10)"
  define m where "m = fl (of_nat hi - q)"
  have ex: "float_of_int (int x) = of_nat x" "float_of_int (int hi) = of_nat hi"
    "float_of_int (int d) = of_nat d" "float_of_int 10 = 10"
    using assms d by (simp_all add: float_of_int_exact)
  have lim: "max_limit lo hi = m"
    by (simp add: max_limit_def fsub_def fdiv_def ex d m_def q_def)
  have q1: "rat_of_nat d / 10 - rat_of_nat d / 10 / 9007199254740992 \<le> q"
    and q2: "q \<le> rat_of_nat d / 10 + rat_of_nat d / 10 / 9007199254740992"
    unfolding q_def by (rule fl_nonneg_bounds, simp)+
  have "rat_of_nat d \<le> of_nat hi"
    using d by (simp only: of_nat_le_iff)
  moreover have "0 \<le> rat_of_nat d" by simp
  ultimately have hq: "0 \<le> rat_of_nat hi - q"
    using q2 by (simp add: field_simps)
  have m1: "(of_nat hi - q) - (of_nat hi - q) / 9007199254740992 \<le> m"
    and m2: "m \<le> (of_nat hi - q) + (of_nat hi - q) / 9007199254740992"
    unfolding m_def by (rule fl_nonneg_bounds [OF hq])+
  have "rat_of_nat d < of_nat (2 ^ 31)" "rat_of_nat hi < of_nat (2 ^ 31)"
    using d assms by (simp_all only: of_nat_less_iff)
  then have bd: "rat_of_nat d < 2147483648" "rat_of_nat hi < 2147483648"
    by simp_all
  have nn: "0 \<le> rat_of_nat d" "0 \<le> rat_of_nat hi" by simp_all
  show ?thesis
  proof
    assume "float_of_int (int x) \<le> max_limit lo hi"
    then have le: "of_nat x \<le> m" by (simp add: lim ex)
    show "10 * x + (hi - lo) \<le> 10 * hi"
    proof (rule ccontr)
      assume "\<not> 10 * x + (hi - lo) \<le> 10 * hi"
      then have "10 * hi + 1 \<le> 10 * x + d" by (simp add: d_def)
      then have "rat_of_nat (10 * hi + 1) \<le> of_nat (10 * x + d)" by (simp only: of_nat_le_iff)
      then have "10 * rat_of_nat hi + 1 \<le> 10 * of_nat x + of_nat d" by simp
      with le q1 m2 bd nn show False by (simp add: field_simps)
    qed
  next
    assume a: "10 * x + (hi - lo) \<le> 10 * hi"
    have "of_nat x \<le> m"
    proof (cases "10 dvd d")
      case True
      then obtain k where k: "d = 10 * k" ..
      have "q = of_int (int k)" unfolding q_def using d k
        by (simp add: fl_of_int [of "int k", simplified])
      moreover have "k \<le> hi" using d k by simp
      ultimately have "m = fl (of_int (int (hi - k)))" by (simp add: m_def of_nat_diff)
      also have "\<dots> = of_int (int (hi - k))"
        using assms by (intro fl_of_int) simp
      finally show ?thesis using a k by (simp add: d_def)
    next
      case False
      with a have "10 * x + d \<noteq> 10 * hi"
        by (metis dvd_add_right_iff dvd_triv_left)
      with a have "10 * x + d + 1 \<le> 10 * hi" by (simp add: d_def)
      then have "rat_of_nat (10 * x + d + 1) \<le> of_nat (10 * hi)" by (simp only: of_nat_le_iff)
      then have "10 * rat_of_nat x + of_nat d + 1 \<le> 10 * of_nat hi" by simp
      with q2 m1 bd nn show ?thesis by (simp add: field_simps)
    qed
    then show "float_of_int (int x) \<le> max_limit lo hi" by (simp add: lim ex)
  qed
qed

lemma shrunk_range_iff:
  assumes "lo \<le> hi"
  shows "shrunk_range lo hi v \<longleftrightarrow> 10 * lo + (hi - lo) \<le> 10 * v \<and> 10 * v + (hi - lo) \<le> 10 * hi"
proof -
  have "10 * lo + (hi - lo) \<le> 10 * v \<longleftrightarrow> rat_of_nat (10 * lo + (hi - lo)) \<le> rat_of_nat (10 * v)"
    by (simp only: of_nat_le_iff)
  also have "\<dots> \<longleftrightarrow> rat_of_nat lo + (rat_of_nat hi - rat_of_nat lo) / 10 \<le> rat_of_nat v"
    using assms by (simp add: of_nat_diff field_simps)
  finally have 1: "10 * lo + (hi - lo) \<le> 10 * v \<longleftrightarrow>
      rat_of_nat lo + (rat_of_nat hi - rat_of_nat lo) / 10 \<le> rat_of_nat v" .
  have "10 * v + (hi - lo) \<le> 10 * hi \<longleftrightarrow> rat_of_nat (10 * v + (hi - lo)) \<le> rat_of_nat (10 * hi)"
    by (simp only: of_nat_le_iff)
  also have "\<dots> \<longleftrightarrow> rat_of_nat v \<le> rat_of_nat hi - (rat_of_nat hi - rat_of_nat lo) / 10"
    using assms by (simp add: of_nat_diff field_simps)
  finally have 2: "10 * v + (hi - lo) \<le> 10 * hi \<longleftrightarrow>
      rat_of_nat v \<le> rat_of_nat hi - (rat_of_nat hi - rat_of_nat lo) / 10" .
  show ?thesis by (simp add: shrunk_range_def 1 2)
qed

section \<open>The seeds\<close>

lemma in_np_nonzero:
  "(y, x) \<in> set (np_nonzero a) \<longleftrightarrow> y < length a \<and> x < length (a ! y) \<and> a ! y ! x"
  by (auto simp: np_nonzero_def)

lemma np_nonzero_all_false:
  assumes "\<forall>row \<in> set a. \<forall>b \<in> set row. \<not> b"
  shows "np_nonzero a = []"
proof (cases "np_nonzero a")
  case Nil
  then show ?thesis .
next
  case (Cons p ps)
  obtain y x where p: "p = (y, x)" by (cases p)
  from Cons p have "(y, x) \<in> set (np_nonzero a)" by simp
  then have "y < length a" "x < length (a ! y)" "a ! y ! x"
    by (simp_all add: in_np_nonzero)
  with assms show ?thesis by (meson nth_mem)
qed

lemma distinct_concat_rows:
  "distinct ys \<Longrightarrow> distinct (concat (map (\<lambda>y. map (Pair y) (f y)) ys))
     \<longleftrightarrow> (\<forall>y \<in> set ys. distinct (f y))"
  by (induction ys) (auto simp: distinct_map inj_on_def)

lemma distinct_np_nonzero: "distinct (np_nonzero a)"
  unfolding np_nonzero_def by (simp add: distinct_concat_rows)

lemma np_where_zip:
  "np_where a = (ys, xs) \<Longrightarrow> zip ys xs = np_nonzero a"
  by (auto simp: np_where_def zip_map_fst_snd)

lemma in_np_invert:
  "y < length (np_invert a) \<and> x < length (np_invert a ! y) \<and> np_invert a ! y ! x
     \<longleftrightarrow> y < length a \<and> x < length (a ! y) \<and> \<not> a ! y ! x"
  by (auto simp: np_invert_def)

lemma np_max_Max: "xs \<noteq> [] \<Longrightarrow> np_max xs = Inr (Max (set xs))"
  by (cases xs) (simp_all add: Max.set_eq_fold [symmetric] del: set_simps)

lemma np_min_Min: "xs \<noteq> [] \<Longrightarrow> np_min xs = Inr (Min (set xs))"
  by (cases xs) (simp_all add: Min.set_eq_fold [symmetric] del: set_simps)

lemma seeds_loop_set:
  "seeds_loop xlo xhi ylo yhi ex cs acc = Inr seeds \<Longrightarrow>
   set seeds = set acc \<union>
     {(x, y). (y, x) \<in> set cs \<and> xlo \<le> float_of_int (int x) \<and> float_of_int (int x) \<le> xhi
        \<and> ylo \<le> float_of_int (int y) \<and> float_of_int (int y) \<le> yhi
        \<and> np_truth ex (int y) (int x) = Inr False}"
proof (induction cs arbitrary: acc)
  case Nil
  then show ?case by auto
next
  case (Cons c cs)
  obtain y x where c: "c = (y, x)" by (cases c)
  show ?case
    using Cons.prems Cons.IH unfolding c
    by (auto split: if_splits sum.splits)
qed

lemma set_np_nonzero: "set (np_nonzero a) = true_pixels a"
  by (auto simp: true_pixels_def in_np_nonzero)

lemma true_pixels_invert:
  "true_pixels (np_invert a) = {(y, x). y < length a \<and> x < length (a ! y) \<and> \<not> a ! y ! x}"
  by (auto simp: true_pixels_def np_invert_def)

lemma get_seeds_empty_mask:
  "np_nonzero mask_array = [] \<Longrightarrow> get_seeds image_array mask_array exclusion_mask = Inl ValueError"
  by (simp add: get_seeds_def np_where_def)

lemma get_seeds_nonempty_mask:
  assumes "np_nonzero mask_array \<noteq> []"
  shows "get_seeds image_array mask_array exclusion_mask =
    seeds_loop
      (min_limit (Min (snd ` true_pixels mask_array)) (Max (snd ` true_pixels mask_array)))
      (max_limit (Min (snd ` true_pixels mask_array)) (Max (snd ` true_pixels mask_array)))
      (min_limit (Min (fst ` true_pixels mask_array)) (Max (fst ` true_pixels mask_array)))
      (max_limit (Min (fst ` true_pixels mask_array)) (Max (fst ` true_pixels mask_array)))
      exclusion_mask
      (filter (\<lambda>c. c \<in> true_pixels (np_invert image_array)) (np_nonzero mask_array)) []"
  using assms
  by (simp add: get_seeds_def np_where_def np_max_Max np_min_Min zip_map_fst_snd
      set_np_nonzero [symmetric] Let_def)

lemma get_seeds_set:
  assumes "get_seeds image_array mask_array exclusion_mask = Inr seeds"
  shows "set seeds =
    {(x, y). (y, x) \<in> true_pixels mask_array \<and> (y, x) \<in> true_pixels (np_invert image_array)
       \<and> min_limit (Min (snd ` true_pixels mask_array)) (Max (snd ` true_pixels mask_array))
            \<le> float_of_int (int x)
       \<and> float_of_int (int x)
            \<le> max_limit (Min (snd ` true_pixels mask_array)) (Max (snd ` true_pixels mask_array))
       \<and> min_limit (Min (fst ` true_pixels mask_array)) (Max (fst ` true_pixels mask_array))
            \<le> float_of_int (int y)
       \<and> float_of_int (int y)
            \<le> max_limit (Min (fst ` true_pixels mask_array)) (Max (fst ` true_pixels mask_array))
       \<and> np_truth exclusion_mask (int y) (int x) = Inr False}"
proof -
  have ne: "np_nonzero mask_array \<noteq> []"
    using assms get_seeds_empty_mask [of mask_array image_array exclusion_mask] by auto
  have "seeds_loop
      (min_limit (Min (snd ` true_pixels mask_array)) (Max (snd ` true_pixels mask_array)))
      (max_limit (Min (snd ` true_pixels mask_array)) (Max (snd ` true_pixels mask_array)))
      (min_limit (Min (fst ` true_pixels mask_array)) (Max (fst ` true_pixels mask_array)))
      (max_limit (Min (fst ` true_pixels mask_array)) (Max (fst ` true_pixels mask_array)))
      exclusion_mask
      (filter (\<lambda>c. c \<in> true_pixels (np_invert image_array)) (np_nonzero mask_array)) []
      = Inr seeds"
    using assms by (simp only: get_seeds_nonempty_mask [OF ne])
  from seeds_loop_set [OF this] show ?thesis
    by (simp add: set_np_nonzero conj_ac)
qed

lemma finite_true_pixels: "finite (true_pixels a)"
  by (simp add: set_np_nonzero [symmetric])

lemma true_pixels_bounds:
  assumes "length a \<le> 2 ^ 31" and "list_all (\<lambda>row. length row \<le> 2 ^ 31) a"
    and "(y, x) \<in> true_pixels a"
  shows "y < 2 ^ 31" and "x < 2 ^ 31"
proof -
  from assms(3) have y: "y < length a" and x: "x < length (a ! y)"
    by (simp_all add: true_pixels_def)
  from y assms(1) show "y < 2 ^ 31" by simp
  from y have "a ! y \<in> set a" by simp
  with assms(2) have "length (a ! y) \<le> 2 ^ 31" by (simp add: list_all_iff)
  with x show "x < 2 ^ 31" by simp
qed

lemma window_exact:
  assumes dims: "length mask_array \<le> 2 ^ 31" "list_all (\<lambda>row. length row \<le> 2 ^ 31) mask_array"
    and p: "(y, x) \<in> true_pixels mask_array"
  shows "(min_limit (bbox_x_min mask_array) (bbox_x_max mask_array) \<le> float_of_int (int x) \<and>
          float_of_int (int x) \<le> max_limit (bbox_x_min mask_array) (bbox_x_max mask_array) \<and>
          min_limit (bbox_y_min mask_array) (bbox_y_max mask_array) \<le> float_of_int (int y) \<and>
          float_of_int (int y) \<le> max_limit (bbox_y_min mask_array) (bbox_y_max mask_array))
         \<longleftrightarrow> inner_window mask_array x y"
proof -
  let ?X = "snd ` true_pixels mask_array" and ?Y = "fst ` true_pixels mask_array"
  have fin: "finite ?X" "finite ?Y" by (simp_all add: finite_true_pixels)
  from p have ne: "?X \<noteq> {}" "?Y \<noteq> {}" by auto
  have "Max ?X \<in> ?X" by (rule Max_in [OF fin(1) ne(1)])
  then obtain y' where "(y', Max ?X) \<in> true_pixels mask_array" by auto
  then have xhi: "bbox_x_max mask_array < 2 ^ 31"
    unfolding bbox_x_max_def by (rule true_pixels_bounds(2) [OF dims])
  have "Max ?Y \<in> ?Y" by (rule Max_in [OF fin(2) ne(2)])
  then obtain x' where "(Max ?Y, x') \<in> true_pixels mask_array" by auto
  then have yhi: "bbox_y_max mask_array < 2 ^ 31"
    unfolding bbox_y_max_def by (rule true_pixels_bounds(1) [OF dims])
  have xle: "bbox_x_min mask_array \<le> bbox_x_max mask_array"
    unfolding bbox_x_min_def bbox_x_max_def by (rule Min_le [OF fin(1) Max_in [OF fin(1) ne(1)]])
  have yle: "bbox_y_min mask_array \<le> bbox_y_max mask_array"
    unfolding bbox_y_min_def bbox_y_max_def by (rule Min_le [OF fin(2) Max_in [OF fin(2) ne(2)]])
  note b = true_pixels_bounds [OF dims p]
  show ?thesis
    unfolding inner_window_def shrunk_range_iff [OF xle] shrunk_range_iff [OF yle]
      min_limit_iff [OF xle xhi b(2)] max_limit_iff [OF xle xhi b(2)]
      min_limit_iff [OF yle yhi b(1)] max_limit_iff [OF yle yhi b(1)]
    by simp
qed

lemma get_seeds_set_exact:
  assumes dims: "length mask_array \<le> 2 ^ 31" "list_all (\<lambda>row. length row \<le> 2 ^ 31) mask_array"
    and g: "get_seeds image_array mask_array exclusion_mask = Inr seeds"
  shows "(x, y) \<in> set seeds \<longleftrightarrow>
     (y, x) \<in> true_pixels mask_array \<and> (y, x) \<in> true_pixels (np_invert image_array) \<and>
     inner_window mask_array x y \<and> np_truth exclusion_mask (int y) (int x) = Inr False"
proof (cases "(y, x) \<in> true_pixels mask_array")
  case True
  show ?thesis
    using window_exact [OF dims True] True
    unfolding get_seeds_set [OF g] bbox_x_min_def bbox_x_max_def bbox_y_min_def bbox_y_max_def
    by auto
next
  case False
  then show ?thesis
    unfolding get_seeds_set [OF g] by simp
qed

lemma true_pixels_filled_square: "true_pixels (filled_square n) = {0..<n} \<times> {0..<n}"
  by (auto simp: true_pixels_def filled_square_def)

lemma true_pixels_single_ink:
  "cy < n \<Longrightarrow> cx < n \<Longrightarrow> true_pixels (np_invert (single_ink n cy cx)) = {(cy, cx)}"
  by (auto simp: true_pixels_invert single_ink_def nth_list_update split: if_splits)

lemma filter_single:
  "distinct xs \<Longrightarrow> a \<in> set xs \<Longrightarrow> filter (\<lambda>c. c \<in> {a}) xs = [a]"
  by (induction xs) (auto simp: filter_empty_conv)

lemma np_truth_blank_square:
  "y < n \<Longrightarrow> x < n \<Longrightarrow> np_truth (BoolArray (blank_square n)) (int y) (int x) = Inr False"
  by (simp add: np_truth_def np_getitem2_def blank_square_def Let_def)

lemma seeds_loop_single:
  assumes "lo \<le> hi" "hi < 2 ^ 31" "x < 2 ^ 31" "y < 2 ^ 31"
    and "np_truth ex (int y) (int x) = Inr False"
  shows "seeds_loop (min_limit lo hi) (max_limit lo hi) (min_limit lo hi) (max_limit lo hi) ex
           [(y, x)] [] =
         Inr (if 10 * lo + (hi - lo) \<le> 10 * x \<and> 10 * x + (hi - lo) \<le> 10 * hi \<and>
                 10 * lo + (hi - lo) \<le> 10 * y \<and> 10 * y + (hi - lo) \<le> 10 * hi
              then [(x, y)] else [])"
proof -
  have "float_of_int (int x) < min_limit lo hi \<longleftrightarrow> \<not> 10 * lo + (hi - lo) \<le> 10 * x"
    using min_limit_iff [OF assms(1,2,3)] by (simp add: not_le [symmetric])
  moreover have "float_of_int (int x) > max_limit lo hi \<longleftrightarrow> \<not> 10 * x + (hi - lo) \<le> 10 * hi"
    using max_limit_iff [OF assms(1,2,3)] by (simp add: not_le [symmetric])
  moreover have "float_of_int (int y) < min_limit lo hi \<longleftrightarrow> \<not> 10 * lo + (hi - lo) \<le> 10 * y"
    using min_limit_iff [OF assms(1,2,4)] by (simp add: not_le [symmetric])
  moreover have "float_of_int (int y) > max_limit lo hi \<longleftrightarrow> \<not> 10 * y + (hi - lo) \<le> 10 * hi"
    using max_limit_iff [OF assms(1,2,4)] by (simp add: not_le [symmetric])
  ultimately show ?thesis
    using assms(5) by simp
qed

lemma get_seeds_single_ink:
  assumes n: "0 < n" "n \<le> 2 ^ 31" and c: "cy < n" "cx < n"
  shows "get_seeds (single_ink n cy cx) (filled_square n) (BoolArray (blank_square n)) =
         Inr (if (n - 1) \<le> 10 * cx \<and> 10 * cx \<le> 9 * (n - 1) \<and>
                 (n - 1) \<le> 10 * cy \<and> 10 * cy \<le> 9 * (n - 1)
              then [(cx, cy)] else [])"
proof -
  have tp: "true_pixels (filled_square n) = {0..<n} \<times> {0..<n}"
    by (rule true_pixels_filled_square)
  have ne: "{0..<n} \<noteq> {}" using n by simp
  have proj: "snd ` ({0..<n} \<times> {0..<n}) = {0..<n}" "fst ` ({0..<n} \<times> {0..<n}) = {0..<n}"
    using ne by auto
  have mm: "Min {0..<n} = 0" "Max {0..<n} = n - 1"
    using n by (auto intro!: Min_eqI Max_eqI)
  have mem: "(cy, cx) \<in> set (np_nonzero (filled_square n))"
    using c by (simp add: set_np_nonzero tp)
  then have nonempty: "np_nonzero (filled_square n) \<noteq> []" by auto
  have inter: "filter (\<lambda>c. c \<in> true_pixels (np_invert (single_ink n cy cx)))
      (np_nonzero (filled_square n)) = [(cy, cx)]"
    unfolding true_pixels_single_ink [OF c]
    by (rule filter_single [OF distinct_np_nonzero mem])
  have b: "n - 1 < 2 ^ 31" "cx < 2 ^ 31" "cy < 2 ^ 31" using n c by simp_all
  have "get_seeds (single_ink n cy cx) (filled_square n) (BoolArray (blank_square n)) =
      seeds_loop (min_limit 0 (n - 1)) (max_limit 0 (n - 1)) (min_limit 0 (n - 1))
        (max_limit 0 (n - 1)) (BoolArray (blank_square n)) [(cy, cx)] []"
    unfolding get_seeds_nonempty_mask [OF nonempty] by (simp only: tp proj mm inter)
  also have "\<dots> = Inr (if 10 * 0 + (n - 1 - 0) \<le> 10 * cx \<and> 10 * cx + (n - 1 - 0) \<le> 10 * (n - 1) \<and>
                 10 * 0 + (n - 1 - 0) \<le> 10 * cy \<and> 10 * cy + (n - 1 - 0) \<le> 10 * (n - 1)
              then [(cx, cy)] else [])"
    by (rule seeds_loop_single [OF _ b(1,2,3) np_truth_blank_square [OF c]]) simp
  also have "\<dots> = Inr (if (n - 1) \<le> 10 * cx \<and> 10 * cx \<le> 9 * (n - 1) \<and>
                 (n - 1) \<le> 10 * cy \<and> 10 * cy \<le> 9 * (n - 1)
              then [(cx, cy)] else [])"
    by (auto intro!: arg_cong [where f = Inr])
  finally show ?thesis .
qed

section \<open>The sampled points\<close>

lemma equidistant_loop_map:
  "num_points \<noteq> 0 \<Longrightarrow>
   equidistant_loop x1 y1 x2 y2 num_points is points =
     Inr (points @ map (\<lambda>i. (interpolate x1 x2 (fl (of_int i / of_int num_points)),
                              interpolate y1 y2 (fl (of_int i / of_int num_points)))) is)"
  by (induction "is" arbitrary: points) (simp_all add: py_truediv_def)

lemma range_8: "py_range 8 = [0, 1, 2, 3, 4, 5, 6, 7]"
  by (simp add: py_range_def upto.simps)

lemma find_equidistant_points_7:
  "find_equidistant_points x1 y1 x2 y2 7 =
     Inr (map (sample_point (x1, y1, x2, y2)) [0, 1, 2, 3, 4, 5, 6, 7])"
proof -
  have "equidistant_loop x1 y1 x2 y2 7 (py_range 8) [] =
      Inr ([] @ map (\<lambda>i. (interpolate x1 x2 (fl (of_int i / of_int 7)),
                             interpolate y1 y2 (fl (of_int i / of_int 7)))) (py_range 8))"
    by (rule equidistant_loop_map) simp
  then show ?thesis
    by (simp add: find_equidistant_points_def range_8 sample_point_def
        del: equidistant_loop.simps)
qed

lemma inner_points_sampled:
  assumes "find_equidistant_points x1 y1 x2 y2 7 = Inr points"
  shows "inner_points points = sampled_points (x1, y1, x2, y2)"
proof -
  have "points = map (sample_point (x1, y1, x2, y2)) [0, 1, 2, 3, 4, 5, 6, 7]"
    using assms unfolding find_equidistant_points_7 by simp
  then show ?thesis
    by (simp add: inner_points_def sampled_points_def)
qed

lemma points_in_structure_loop_any:
  "points_in_structure_loop segmentation_mask ps = Inr b \<Longrightarrow>
   b = list_ex (inside_mask segmentation_mask) ps"
proof (induction ps)
  case Nil
  then show ?case by auto
next
  case (Cons p ps)
  obtain x y where p: "p = (x, y)" by (cases p)
  show ?case
    using Cons.prems Cons.IH unfolding p
    by (auto simp: inside_mask_def split: sum.splits if_splits)
qed

lemma lines_loop_fold:
  "lines_loop cv_line segmentation_mask ls m = Inr r \<Longrightarrow>
   r = fold (draw cv_line) (filter (\<lambda>l. \<not> any_sample_inside segmentation_mask l) ls) m"
proof (induction ls arbitrary: m)
  case Nil
  then show ?case by simp
next
  case (Cons l ls)
  obtain x1 y1 x2 y2 where l: "l = (x1, y1, x2, y2)" by (cases l)
  obtain points where pts: "find_equidistant_points x1 y1 x2 y2 7 = Inr points"
    using find_equidistant_points_7 by blast
  have inner: "inner_points points = sampled_points l"
    unfolding l by (rule inner_points_sampled [OF pts])
  from Cons.prems obtain b where
    b: "points_in_structure_loop segmentation_mask (sampled_points l) = Inr b"
    and rest: "lines_loop cv_line segmentation_mask ls (if b then m else draw cv_line l m) = Inr r"
    unfolding l using inner [unfolded l]
    by (auto simp: pts draw_def split: sum.splits if_splits)
  from points_in_structure_loop_any [OF b]
  have "b = any_sample_inside segmentation_mask l"
    by (simp add: any_sample_inside_def)
  with Cons.IH [OF rest] show ?case by simp
qed

lemma any_sample_inside_pixels:
  "any_sample_inside segmentation_mask l =
     list_ex (\<lambda>(x, y). np_getitem2 segmentation_mask y x = Inr True) (sampled_pixels l)"
  unfolding any_sample_inside_def sampled_pixels_def inside_mask_def list_ex_iff
  by (simp add: case_prod_beta)

text \<open>Two segments, evaluated in the rounded arithmetic.\<close>

lemma equidistant_points_0_7:
  "find_equidistant_points 0 0 7 0 7
     = Inr [(0, 0), (1, 0), (2, 0), (3, 0), (4, 0), (5, 0), (6, 0), (7, 0)]"
  by code_simp

lemma sampled_pixels_0_7:
  "sampled_pixels (0, 0, 7, 0) = [(1, 0), (2, 0), (3, 0), (4, 0), (5, 0), (6, 0)]"
proof -
  have "sampled_points (0, 0, 7, 0) =
      inner_points [(0, 0), (1, 0), (2, 0), (3, 0), (4, 0), (5, 0), (6, 0), (7, 0)]"
    by (rule inner_points_sampled [OF equidistant_points_0_7, symmetric])
  then show ?thesis
    by (simp add: sampled_pixels_def inner_points_def py_int_def)
qed

lemma sampled_pixels_4_7:
  "sampled_pixels (4, 0, 7, 0) = [(4, 0), (4, 0), (5, 0), (5, 0), (6, 0), (6, 0)]"
  by code_simp

text \<open>
  A sampled point of a segment with its endpoints in the mask is a valid index of the
  mask, so that the loops raise no \<open>IndexError\<close>.
\<close>

lemma sample_parameter_range:
  assumes "0 \<le> i" and "i \<le> 6"
  shows "0 \<le> fl (of_int i / 7)" and "fl (of_int i / 7) \<le> 1"
proof -
  have nn: "0 \<le> rat_of_int i / 7" using assms by simp
  then show "0 \<le> fl (of_int i / 7)" by (rule fl_nonneg)
  have "rat_of_int i \<le> of_int 6" using assms by (simp only: of_int_le_iff)
  then have "rat_of_int i / 7 \<le> 6 / 7" by simp
  with fl_nonneg_bounds(2) [OF nn] show "fl (of_int i / 7) \<le> 1"
    by (simp add: field_simps)
qed

lemma interpolate_range:
  assumes a: "0 \<le> a" "a < W" and b: "0 \<le> b" "b < W" and W: "W \<le> 2 ^ 31"
    and t: "0 \<le> t" "t \<le> 1"
  shows "0 \<le> interpolate a b t" and "interpolate a b t < of_int W"
proof -
  define u where "u = fl (1 - t)"
  define s where "s = rat_of_int (W - 1)"
  have fa: "float_of_int a = of_int a" and fb: "float_of_int b = of_int b"
    and f1: "float_of_int 1 = 1"
    using a b W by (simp_all add: float_of_int_exact)
  have u0: "0 \<le> u" unfolding u_def using t by (simp add: fl_nonneg)
  have u1: "u \<le> (1 - t) + (1 - t) / 9007199254740992"
    unfolding u_def using t by (intro fl_nonneg_bounds(2)) simp
  define X where "X = of_int a * u"
  define Y where "Y = of_int b * t"
  have X0: "0 \<le> X" and Y0: "0 \<le> Y"
    using a b u0 t by (simp_all add: X_def Y_def)
  have as: "rat_of_int a \<le> s" and bs: "rat_of_int b \<le> s"
    using a b unfolding s_def by (simp_all only: of_int_le_iff)
  have s0: "0 \<le> s" using a unfolding s_def by simp
  have "W - 1 < 2 ^ 31" using W by simp
  then have "rat_of_int (W - 1) < of_int (2 ^ 31)" by (simp only: of_int_less_iff)
  then have sb: "s < 2147483648" by (simp add: s_def)
  have "X \<le> s * u" "Y \<le> s * t"
    unfolding X_def Y_def using as bs u0 t by (simp_all add: mult_right_mono)
  then have "X + Y \<le> s * (u + t)" by (simp add: algebra_simps)
  also have "\<dots> \<le> s * (1 + 1 / 9007199254740992)"
    using u1 t s0 by (intro mult_left_mono) (simp_all add: field_simps)
  finally have XY: "X + Y \<le> s + s / 9007199254740992" by (simp add: algebra_simps)
  define r1 where "r1 = fl X"
  define r2 where "r2 = fl Y"
  have r1: "0 \<le> r1" "r1 \<le> X + X / 9007199254740992"
    unfolding r1_def by (rule fl_nonneg [OF X0], rule fl_nonneg_bounds(2) [OF X0])
  have r2: "0 \<le> r2" "r2 \<le> Y + Y / 9007199254740992"
    unfolding r2_def by (rule fl_nonneg [OF Y0], rule fl_nonneg_bounds(2) [OF Y0])
  have r12: "0 \<le> r1 + r2" using r1 r2 by simp
  have eq: "interpolate a b t = fl (r1 + r2)"
    by (simp add: interpolate_def fadd_def fmul_def fsub_def fa fb f1 r1_def r2_def X_def Y_def
        u_def)
  show "0 \<le> interpolate a b t"
    unfolding eq by (rule fl_nonneg [OF r12])
  have "fl (r1 + r2) \<le> (r1 + r2) + (r1 + r2) / 9007199254740992"
    by (rule fl_nonneg_bounds(2) [OF r12])
  with r1 r2 XY sb s0 have "fl (r1 + r2) < s + 1"
    by (simp add: field_simps)
  then show "interpolate a b t < of_int W"
    by (simp add: eq s_def)
qed

lemma py_int_range:
  assumes "0 \<le> v" and "v < of_int W"
  shows "0 \<le> py_int v" and "py_int v < W"
  using assms by (simp_all add: py_int_def floor_less_iff)

lemma np_getitem2_in_range:
  assumes "rectangular h w a" and "0 \<le> i" "i < int h" and "0 \<le> j" "j < int w"
  shows "np_getitem2 a i j = Inr (a ! nat i ! nat j)"
proof -
  from assms have "nat i < length a" by (simp add: rectangular_def)
  then have "a ! nat i \<in> set a" by simp
  with assms have "length (a ! nat i) = w" by (simp add: rectangular_def list_all_iff)
  with assms show ?thesis by (simp add: np_getitem2_def rectangular_def Let_def)
qed

lemma sampled_points_index_ok:
  assumes rect: "rectangular h w segmentation_mask"
    and size: "h \<le> 2 ^ 31" "w \<le> 2 ^ 31"
    and l: "line_in_bounds h w l"
    and p: "p \<in> set (sampled_points l)"
  shows "index_ok segmentation_mask p"
proof -
  obtain x1 y1 x2 y2 where l': "l = (x1, y1, x2, y2)" by (cases l) auto
  from p have "p \<in> sample_point l ` set [1, 2, 3, 4, 5, 6]"
    unfolding sampled_points_def by (simp only: set_map)
  then obtain i where mem: "i \<in> set [1, 2, 3, 4, 5, 6 :: int]" and p': "p = sample_point l i"
    by (rule imageE)
  from mem have i: "0 \<le> i" "i \<le> 6"
    by auto
  have t: "0 \<le> fl (of_int i / 7)" "fl (of_int i / 7) \<le> 1"
    using i by (simp_all add: sample_parameter_range)
  have "int h \<le> int (2 ^ 31)" "int w \<le> int (2 ^ 31)"
    using size by (simp_all only: of_nat_le_iff)
  then have hw: "int h \<le> 2 ^ 31" "int w \<le> 2 ^ 31"
    by simp_all
  from l l' have x: "0 \<le> x1" "x1 < int w" "0 \<le> x2" "x2 < int w"
    and y: "0 \<le> y1" "y1 < int h" "0 \<le> y2" "y2 < int h"
    by (simp_all add: line_in_bounds_def)
  have px: "0 \<le> py_int (fst p)" "py_int (fst p) < int w"
    unfolding p' l' sample_point_def
    using interpolate_range [OF x hw(2) t] by (simp_all only: py_int_range fst_conv snd_conv prod.case)
  have py: "0 \<le> py_int (snd p)" "py_int (snd p) < int h"
    unfolding p' l' sample_point_def
    using interpolate_range [OF y hw(1) t] by (simp_all only: py_int_range fst_conv snd_conv prod.case)
  show ?thesis
    by (simp add: index_ok_def np_getitem2_in_range [OF rect py px])
qed

lemma points_in_structure_loop_total:
  "\<forall>p \<in> set ps. index_ok segmentation_mask p \<Longrightarrow>
   points_in_structure_loop segmentation_mask ps =
     Inr (list_ex (inside_mask segmentation_mask) ps)"
proof (induction ps)
  case Nil
  then show ?case by simp
next
  case (Cons p ps)
  obtain x y where p: "p = (x, y)" by (cases p)
  from Cons.prems have "index_ok segmentation_mask (x, y)" by (simp add: p)
  then obtain b where b: "np_getitem2 segmentation_mask (py_int y) (py_int x) = Inr b"
    by (auto simp: index_ok_def split: sum.splits)
  from Cons show ?case
    by (simp add: p b inside_mask_def)
qed

lemma lines_loop_total:
  "\<forall>l \<in> set ls. \<forall>p \<in> set (sampled_points l). index_ok segmentation_mask p \<Longrightarrow>
   lines_loop cv_line segmentation_mask ls m =
     Inr (fold (draw cv_line) (filter (\<lambda>l. \<not> any_sample_inside segmentation_mask l) ls) m)"
proof (induction ls arbitrary: m)
  case Nil
  then show ?case by simp
next
  case (Cons l ls)
  obtain x1 y1 x2 y2 where l: "l = (x1, y1, x2, y2)" by (cases l)
  obtain points where pts: "find_equidistant_points x1 y1 x2 y2 7 = Inr points"
    using find_equidistant_points_7 by blast
  have inner: "inner_points points = sampled_points (x1, y1, x2, y2)"
    by (rule inner_points_sampled [OF pts])
  from Cons.prems have "\<forall>p \<in> set (sampled_points (x1, y1, x2, y2)). index_ok segmentation_mask p"
    by (simp add: l)
  then have loop: "points_in_structure_loop segmentation_mask (sampled_points (x1, y1, x2, y2)) =
      Inr (any_sample_inside segmentation_mask (x1, y1, x2, y2))"
    unfolding any_sample_inside_def by (rule points_in_structure_loop_total)
  from Cons.prems have rest: "\<forall>l \<in> set ls. \<forall>p \<in> set (sampled_points l). index_ok segmentation_mask p"
    by simp
  show ?case
    unfolding l by (simp add: pts inner loop Cons.IH [OF rest] draw_def)
qed

lemma min_line_length_eq:
  "py_truediv (max (fst mds) (snd mds)) 4 = Inr q \<Longrightarrow> py_int q = min_line_length mds"
  by (auto simp: py_truediv_def min_line_length_def)

lemma detect_lines_None:
  assumes "detected_lines HoughLinesP img mds = None"
  shows "detect_lines HoughLinesP cv_line img mds segmentation_mask =
    Inr (UInt8Array (zeros_like (inverted_uint8 img)))"
  using assms
  by (simp add: detect_lines_def detected_lines_def py_truediv_def min_line_length_def Let_def)

lemma detect_lines_Some:
  assumes "detected_lines HoughLinesP img mds = Some ls"
  shows "detect_lines HoughLinesP cv_line img mds segmentation_mask =
    (case lines_loop cv_line segmentation_mask ls
            (zeros_like (inverted_uint8 img)) of
       Inl e \<Rightarrow> Inl e
     | Inr drawn \<Rightarrow> Inr (BoolArray (astype_bool drawn)))"
  using assms
  by (simp add: detect_lines_def detected_lines_def py_truediv_def min_line_length_def Let_def)











text \<open>
  A vertical segment on which the rounded interpolation leaves the segment: at
  \<open>t = 3 / 7\<close> the rounded \<open>29 * (1 - t) + 29 * t\<close> is \<open>29 - 1 / 2 ^ 48\<close>, which \<open>int\<close>
  truncates to 28.
\<close>

lemma sampled_points_29_down:
  "sampled_points (29, 0, 29, 7) =
     [(29, 1), (29, 2), (8162774324609023 / 281474976710656, 3), (29, 4), (29, 5), (29, 6)]"
  by code_simp

lemma sampled_points_29_up:
  "sampled_points (29, 7, 29, 0) =
     [(29, 6), (29, 5), (8162774324609023 / 281474976710656, 4), (29, 3), (29, 2),
      (29, 2251799813685249 / 2251799813685248)]"
  by code_simp

lemma sampled_pixels_29_down:
  "sampled_pixels (29, 0, 29, 7) = [(29, 1), (29, 2), (28, 3), (29, 4), (29, 5), (29, 6)]"
proof -
  have "\<lfloor>8162774324609023 / 281474976710656 :: rat\<rfloor> = 28"
    by code_simp
  then show ?thesis
    by (simp add: sampled_pixels_def sampled_points_29_down py_int_def)
qed

lemma sampled_pixels_29_up:
  "sampled_pixels (29, 7, 29, 0) = [(29, 6), (29, 5), (28, 4), (29, 3), (29, 2), (29, 1)]"
proof -
  have "\<lfloor>8162774324609023 / 281474976710656 :: rat\<rfloor> = 28"
    and "\<lfloor>2251799813685249 / 2251799813685248 :: rat\<rfloor> = 1"
    by code_simp+
  then show ?thesis
    by (simp add: sampled_pixels_def sampled_points_29_up py_int_def)
qed

lemma exact_sample_points_29_down:
  "exact_sample_points (29, 0, 29, 7) = [(29, 1), (29, 2), (29, 3), (29, 4), (29, 5), (29, 6)]"
  by (simp add: exact_sample_points_def exact_sample_point_def)

lemma exact_sample_points_29_up:
  "exact_sample_points (29, 7, 29, 0) = [(29, 6), (29, 5), (29, 4), (29, 3), (29, 2), (29, 1)]"
  by (simp add: exact_sample_points_def exact_sample_point_def)

lemma np_getitem2_single_true:
  assumes "y < h" and "x < w" and "0 \<le> i" and "i < int h" and "0 \<le> j" and "j < int w"
  shows "np_getitem2 (single_true h w y x) i j = Inr (nat i = y \<and> nat j = x)"
proof -
  have i: "nat i < h" and j: "nat j < w"
    using assms by simp_all
  have row: "length (single_true h w y x ! nat i) = w"
    using i assms(1) by (simp add: single_true_def nth_list_update)
  have "single_true h w y x ! nat i ! nat j = (nat i = y \<and> nat j = x)"
    using i j assms(1,2) by (auto simp: single_true_def nth_list_update)
  with row assms show ?thesis
    by (simp add: np_getitem2_def single_true_def Let_def)
qed

lemma point_in_single_true:
  assumes "y < h" and "x < w"
  shows "point_in_mask (single_true h w y x) (of_nat x, of_nat y)"
  using assms by (simp add: point_in_mask_def single_true_def)

lemma detect_lines_single:
  assumes "\<not> any_sample_inside segmentation_mask (x1, y1, x2, y2)"
    and "list_all (index_ok segmentation_mask) (sampled_points (x1, y1, x2, y2))"
  shows "detect_lines (\<lambda>im n. Some [(x1, y1, x2, y2)]) cv_line img max_depiction_size segmentation_mask
      = Inr (BoolArray (astype_bool
               (cv_line (zeros_like (inverted_uint8 img)) (x1, y1) (x2, y2) 255 3)))"
proof -
  have h: "detected_lines (\<lambda>im n. Some [(x1, y1, x2, y2)]) img max_depiction_size
      = Some [(x1, y1, x2, y2)]"
    by (simp add: detected_lines_def)
  from assms(2) have "\<forall>l \<in> set [(x1, y1, x2, y2)]. \<forall>p \<in> set (sampled_points l).
      index_ok segmentation_mask p"
    by (simp add: list_all_iff)
  then have "lines_loop cv_line segmentation_mask [(x1, y1, x2, y2)] (zeros_like (inverted_uint8 img)) =
      Inr (fold (draw cv_line)
             (filter (\<lambda>l. \<not> any_sample_inside segmentation_mask l) [(x1, y1, x2, y2)])
             (zeros_like (inverted_uint8 img)))"
    by (rule lines_loop_total)
  with assms(1) show ?thesis
    unfolding detect_lines_Some [OF h] by (simp add: draw_def)
qed

lemma any_sample_29_down: "\<not> any_sample_inside (single_true 8 30 3 29) (29, 0, 29, 7)"
  by (simp add: any_sample_inside_pixels sampled_pixels_29_down np_getitem2_single_true)

lemma any_sample_29_up: "\<not> any_sample_inside (single_true 8 30 4 29) (29, 7, 29, 0)"
  by (simp add: any_sample_inside_pixels sampled_pixels_29_up np_getitem2_single_true)

lemma index_ok_pixels:
  "list_all (index_ok segmentation_mask) (sampled_points l) =
     list_all (\<lambda>(x, y). case np_getitem2 segmentation_mask y x of Inl e \<Rightarrow> False | Inr b \<Rightarrow> True)
       (sampled_pixels l)"
  unfolding sampled_pixels_def index_ok_def list_all_iff by (simp add: case_prod_beta)

lemma index_ok_29_down:
  "list_all (index_ok (single_true 8 30 3 29)) (sampled_points (29, 0, 29, 7))"
  by (simp add: index_ok_pixels sampled_pixels_29_down np_getitem2_single_true)

lemma index_ok_29_up:
  "list_all (index_ok (single_true 8 30 4 29)) (sampled_points (29, 7, 29, 0))"
  by (simp add: index_ok_pixels sampled_pixels_29_up np_getitem2_single_true)

section \<open>Erosion and dilation\<close>

lemma length_binary_erosion [simp]: "length (binary_erosion img selem) = length img"
  by (simp add: binary_erosion_def)

lemma length_binary_erosion_row [simp]:
  "y < length img \<Longrightarrow> length (binary_erosion img selem ! y) = length (img ! y)"
  by (simp add: binary_erosion_def)

lemma binary_erosion_nth:
  "y < length img \<Longrightarrow> x < length (img ! y) \<Longrightarrow>
   binary_erosion img selem ! y ! x =
     (\<forall>(dy, dx) \<in> set (footprint_offsets selem). pixel_or True img (int y + dy) (int x + dx))"
  by (simp add: binary_erosion_def list_all_iff)

lemma length_binary_dilation [simp]: "length (binary_dilation img selem) = length img"
  by (simp add: binary_dilation_def)

lemma length_binary_dilation_row [simp]:
  "y < length img \<Longrightarrow> length (binary_dilation img selem ! y) = length (img ! y)"
  by (simp add: binary_dilation_def)

lemma binary_dilation_nth:
  "y < length img \<Longrightarrow> x < length (img ! y) \<Longrightarrow>
   binary_dilation img selem ! y ! x =
     (\<exists>(dy, dx) \<in> set (footprint_offsets selem). pixel_or False img (int y - dy) (int x - dx))"
  by (simp add: binary_dilation_def list_ex_iff)

lemma pixel_or_False_E:
  assumes "pixel_or False a y x"
  obtains "0 \<le> y" and "nat y < length a" and "0 \<le> x" and "nat x < length (a ! nat y)"
    and "a ! nat y ! nat x"
  using assms by (auto simp: pixel_or_def split: if_splits)

lemma opening_anti_extensive:
  assumes y: "y < length img" and x: "x < length (img ! y)"
    and out: "binary_dilation (binary_erosion img selem) selem ! y ! x"
  shows "img ! y ! x"
proof -
  let ?e = "binary_erosion img selem"
  from y x have "y < length ?e" "x < length (?e ! y)" by simp_all
  with out obtain dy dx where d: "(dy, dx) \<in> set (footprint_offsets selem)"
    and p: "pixel_or False ?e (int y - dy) (int x - dx)"
    by (auto simp: binary_dilation_nth)
  let ?y' = "nat (int y - dy)" and ?x' = "nat (int x - dx)"
  from p have y': "0 \<le> int y - dy" "?y' < length ?e"
    and x': "0 \<le> int x - dx" "?x' < length (?e ! ?y')"
    and e: "?e ! ?y' ! ?x'"
    by (auto elim: pixel_or_False_E)
  from y'(2) have y'': "?y' < length img"
    by simp
  from x'(2) y'' have x'': "?x' < length (img ! ?y')"
    by simp
  from e d have "pixel_or True img (int ?y' + dy) (int ?x' + dx)"
    using binary_erosion_nth [OF y'' x''] by auto
  moreover have "int ?y' + dy = int y" "int ?x' + dx = int x"
    using y' x' by simp_all
  ultimately show ?thesis
    using y x by (simp add: pixel_or_def)
qed

lemma np_shape_complete_structure_mask:
  "np_shape (complete_structure_mask img) = np_shape img"
  by (auto simp: np_shape_def complete_structure_mask_def intro!: nth_equalityI)

lemma rectangular_complete_structure_mask:
  assumes "rectangular h w img"
  shows "rectangular h w (complete_structure_mask img)"
  using assms unfolding rectangular_def list_all_length complete_structure_mask_def
  by simp

lemma np_shape_np_eq [simp]: "np_shape (np_eq a v) = np_shape a"
  by (simp add: np_shape_def np_eq_def comp_def)

section \<open>The claims\<close>

subsection \<open>get_seeds\<close>

text \<open>
  C1 (as the code behaves): for every region-of-interest mask with no true pixel,
  \<open>get_seeds\<close> raises \<open>ValueError\<close>, for any image and exclusion mask: \<open>np.where\<close>
  returns empty arrays and \<open>mask_y_values.max()\<close> is the maximum of an array of size zero.
  The function has no guard for this case and returns no seed list.
\<close>

theorem get_seeds_empty_region:
  assumes "list_all (list_all Not) mask_array"
  shows "get_seeds image_array mask_array exclusion_mask = Inl ValueError"
proof -
  from assms have "\<forall>row \<in> set mask_array. \<forall>b \<in> set row. \<not> b"
    by (simp add: list_all_iff)
  then have "np_nonzero mask_array = []"
    by (rule np_nonzero_all_false)
  then show ?thesis
    by (rule get_seeds_empty_mask)
qed

theorem get_seeds_empty_region_witness:
  "list_all (list_all Not) [[False, False], [False, False]] \<and>
   get_seeds [[True, False], [False, True]] [[False, False], [False, False]]
     (BoolArray [[False, False], [False, False]]) = Inl ValueError"
  using get_seeds_empty_region [of "[[False, False], [False, False]]"
      "[[True, False], [False, True]]" "BoolArray [[False, False], [False, False]]"]
  by simp

text \<open>
  C1 as stated fails: on a one-pixel mask that is false the result is the exception, not
  the empty seed list.
\<close>

theorem get_seeds_empty_region_counterexample:
  "get_seeds [[True]] [[False]] (BoolArray [[False]]) = Inl ValueError \<and>
   get_seeds [[True]] [[False]] (BoolArray [[False]]) \<noteq> Inr []"
  by (simp add: get_seeds_empty_mask np_nonzero_def)

text \<open>
  C3 (as the code behaves): \<open>get_seeds\<close> intersects the true pixels of the region of
  interest with the pixels at which \<open>image_array\<close> is \<^emph>\<open>false\<close>: the image is the
  binarized image, in which true is the white background, and \<open>np.invert\<close> turns it
  into the ink. Every returned seed \<open>(x, y)\<close> is a pixel at which the region-of-interest
  mask is true and \<open>image_array\<close> is false.
\<close>

theorem get_seeds_intersection:
  assumes "get_seeds image_array mask_array exclusion_mask = Inr seeds"
    and "(x, y) \<in> set seeds"
  shows "y < length mask_array \<and> x < length (mask_array ! y) \<and> mask_array ! y ! x \<and>
         y < length image_array \<and> x < length (image_array ! y) \<and> \<not> image_array ! y ! x"
proof -
  from assms(2) have "(y, x) \<in> true_pixels mask_array"
    and "(y, x) \<in> true_pixels (np_invert image_array)"
    unfolding get_seeds_set [OF assms(1)] by simp_all
  then show ?thesis
    unfolding true_pixels_invert by (simp add: true_pixels_def)
qed

theorem get_seeds_intersection_witness:
  "get_seeds [[True, True, True], [True, False, True], [True, True, True]]
     [[True, True, True], [True, True, True], [True, True, True]]
     (BoolArray [[False, False, False], [False, False, False], [False, False, False]])
     = Inr [(1, 1)] \<and>
   (1, 1) \<in> set [(1 :: nat, 1 :: nat)] \<and>
   [[True, True, True], [True, True, True], [True, True, True]] ! 1 ! 1 \<and>
   \<not> [[True, True, True], [True, False, True], [True, True, True]] ! 1 ! 1"
proof -
  have g: "get_seeds [[True, True, True], [True, False, True], [True, True, True]]
     [[True, True, True], [True, True, True], [True, True, True]]
     (BoolArray [[False, False, False], [False, False, False], [False, False, False]])
     = Inr [(1, 1)]"
    by code_simp
  have m: "(1, 1) \<in> set [(1 :: nat, 1 :: nat)]"
    by simp
  from get_seeds_intersection [OF g m] g show ?thesis
    by simp
qed

text \<open>
  C3 as stated fails: with an image that is true at its only pixel (ink, in the convention
  of the claim) nothing is returned, and with an image that is false there the pixel is
  returned as a seed.
\<close>

theorem get_seeds_intersection_counterexample:
  "get_seeds [[False]] [[True]] (BoolArray [[False]]) = Inr [(0, 0)] \<and> \<not> [[False]] ! 0 ! 0 \<and>
   get_seeds [[True]] [[True]] (BoolArray [[False]]) = Inr []"
  by code_simp

text \<open>
  C6: every seed that \<open>get_seeds\<close> returns is not marked in the exclusion mask and, for
  a mask of at most \<open>2 ^ 31\<close> rows and columns (where the rounded comparisons of the code
  agree with exact arithmetic), lies inside the bounding box of the mask shrunk by a tenth
  of its extent on each side. On a filled 100 by 100 square with one pixel of ink (a pixel
  at which the image is false) at one of the four central pixels, the result is exactly
  that coordinate; with the ink at a corner the result is empty.
\<close>

theorem get_seeds_inner_window:
  "(get_seeds image_array mask_array exclusion_mask = Inr seeds \<and> (x, y) \<in> set seeds \<longrightarrow>
      np_truth exclusion_mask (int y) (int x) = Inr False \<and>
      (length mask_array \<le> 2 ^ 31 \<and> list_all (\<lambda>row. length row \<le> 2 ^ 31) mask_array \<longrightarrow>
         inner_window mask_array x y)) \<and>
   list_all (\<lambda>(cx, cy).
       get_seeds (single_ink 100 cy cx) (filled_square 100) (BoolArray (blank_square 100))
         = Inr [(cx, cy)])
     [(49, 49), (50, 49), (49, 50), (50, 50)] \<and>
   list_all (\<lambda>(cx, cy).
       get_seeds (single_ink 100 cy cx) (filled_square 100) (BoolArray (blank_square 100))
         = Inr [])
     [(0, 0), (99, 0), (0, 99), (99, 99)]"
proof (intro conjI impI)
  assume a: "get_seeds image_array mask_array exclusion_mask = Inr seeds \<and> (x, y) \<in> set seeds"
  then have g: "get_seeds image_array mask_array exclusion_mask = Inr seeds"
    and m: "(x, y) \<in> set seeds"
    by simp_all
  from m show "np_truth exclusion_mask (int y) (int x) = Inr False"
    unfolding get_seeds_set [OF g] by simp
  assume "length mask_array \<le> 2 ^ 31 \<and> list_all (\<lambda>row. length row \<le> 2 ^ 31) mask_array"
  then have d: "length mask_array \<le> 2 ^ 31" "list_all (\<lambda>row. length row \<le> 2 ^ 31) mask_array"
    by simp_all
  from m show "inner_window mask_array x y"
    by (simp add: get_seeds_set_exact [OF d g])
next
  show "list_all (\<lambda>(cx, cy).
       get_seeds (single_ink 100 cy cx) (filled_square 100) (BoolArray (blank_square 100))
         = Inr [(cx, cy)])
     [(49, 49), (50, 49), (49, 50), (50, 50)]"
    by (simp add: get_seeds_single_ink)
next
  show "list_all (\<lambda>(cx, cy).
       get_seeds (single_ink 100 cy cx) (filled_square 100) (BoolArray (blank_square 100))
         = Inr [])
     [(0, 0), (99, 0), (0, 99), (99, 99)]"
    by (simp add: get_seeds_single_ink)
qed

theorem get_seeds_inner_window_witness:
  "get_seeds (single_ink 100 50 50) (filled_square 100) (BoolArray (blank_square 100))
     = Inr [(50, 50)] \<and>
   (50, 50) \<in> set [(50 :: nat, 50 :: nat)] \<and>
   length (filled_square 100) \<le> 2 ^ 31 \<and>
   list_all (\<lambda>row. length row \<le> 2 ^ 31) (filled_square 100) \<and>
   np_truth (BoolArray (blank_square 100)) (int 50) (int 50) = Inr False \<and>
   inner_window (filled_square 100) 50 50"
proof -
  have g: "get_seeds (single_ink 100 50 50) (filled_square 100) (BoolArray (blank_square 100))
      = Inr [(50, 50)]"
    by (simp add: get_seeds_single_ink)
  have m: "(50, 50) \<in> set [(50 :: nat, 50 :: nat)]"
    by simp
  have d: "length (filled_square 100) \<le> 2 ^ 31 \<and>
      list_all (\<lambda>row. length row \<le> 2 ^ 31) (filled_square 100)"
    by (simp add: filled_square_def list_all_iff)
  from get_seeds_inner_window [of "single_ink 100 50 50" "filled_square 100"
      "BoolArray (blank_square 100)" "[(50, 50)]" 50 50] g m d
  show ?thesis
    by blast
qed

subsection \<open>find_equidistant_points\<close>

text \<open>
  C9: \<open>find_equidistant_points\<close> applied to the endpoints (0,0) and (10,0) with 5
  divisions produces exactly the points (0,0), (2,0), (4,0), (6,0), (8,0), (10,0), in
  that order. The computation is carried out in rounded binary64 arithmetic; every
  rounded product \<open>10 * (i / 5)\<close> is the integer \<open>2 * i\<close>.
\<close>

theorem find_equidistant_points_example:
  "find_equidistant_points 0 0 10 0 5
     = Inr [(0, 0), (2, 0), (4, 0), (6, 0), (8, 0), (10, 0)]"
  by code_simp

subsection \<open>detect_lines\<close>




text \<open>
  C4 does not hold of the code. The sampled points of the statement are the points of the
  segment at \<open>t = i / 7\<close>; the code tests the pixels \<open>(int(x), int(y))\<close> of its rounded
  points. On the vertical segment from (29,0) to (29,7) the point at \<open>t = 3 / 7\<close> is
  (29,3), but \<open>29 * (1 - t) + 29 * t\<close> is rounded to \<open>29 - 1 / 2 ^ 48\<close> and truncated to
  the column 28. With a candidate mask of 8 rows and 30 columns that is true at row 3,
  column 29 only, a sampled point of the segment falls inside the mask, so that the segment
  should contribute nothing; the code finds none of its six pixels inside the mask and
  returns the exclusion mask with the segment drawn by \<open>cv2.line\<close>, whatever the image and
  the size estimate are. The same holds of the segment taken from (29,7) to (29,0) and the
  mask that is true at row 4, column 29 only.
\<close>

theorem detect_lines_draws_segment_through_mask:
  "exact_sample_points (29, 0, 29, 7) = [(29, 1), (29, 2), (29, 3), (29, 4), (29, 5), (29, 6)] \<and>
   any_exact_sample_inside (single_true 8 30 3 29) (29, 0, 29, 7) \<and>
   sampled_pixels (29, 0, 29, 7) = [(29, 1), (29, 2), (28, 3), (29, 4), (29, 5), (29, 6)] \<and>
   detect_lines (\<lambda>im n. Some [(29, 0, 29, 7)]) cv_line img max_depiction_size
       (single_true 8 30 3 29)
     = Inr (BoolArray (astype_bool
              (cv_line (zeros_like (inverted_uint8 img)) (29, 0) (29, 7) 255 3))) \<and>
   exact_sample_points (29, 7, 29, 0) = [(29, 6), (29, 5), (29, 4), (29, 3), (29, 2), (29, 1)] \<and>
   any_exact_sample_inside (single_true 8 30 4 29) (29, 7, 29, 0) \<and>
   sampled_pixels (29, 7, 29, 0) = [(29, 6), (29, 5), (28, 4), (29, 3), (29, 2), (29, 1)] \<and>
   detect_lines (\<lambda>im n. Some [(29, 7, 29, 0)]) cv_line img max_depiction_size
       (single_true 8 30 4 29)
     = Inr (BoolArray (astype_bool
              (cv_line (zeros_like (inverted_uint8 img)) (29, 7) (29, 0) 255 3)))"
proof -
  have p3: "point_in_mask (single_true 8 30 3 29) (29, 3)"
    using point_in_single_true [of 3 8 29 30] by simp
  have p4: "point_in_mask (single_true 8 30 4 29) (29, 4)"
    using point_in_single_true [of 4 8 29 30] by simp
  have e1: "any_exact_sample_inside (single_true 8 30 3 29) (29, 0, 29, 7)"
    unfolding any_exact_sample_inside_def exact_sample_points_29_down using p3 by simp
  have e2: "any_exact_sample_inside (single_true 8 30 4 29) (29, 7, 29, 0)"
    unfolding any_exact_sample_inside_def exact_sample_points_29_up using p4 by simp
  note d1 = detect_lines_single [OF any_sample_29_down index_ok_29_down,
      of cv_line img max_depiction_size]
  note d2 = detect_lines_single [OF any_sample_29_up index_ok_29_up,
      of cv_line img max_depiction_size]
  show ?thesis
    by (simp only: exact_sample_points_29_down exact_sample_points_29_up e1 e2
        sampled_pixels_29_down sampled_pixels_29_up d1 d2 simp_thms)
qed

text \<open>
  C7 does not hold of the code as to the kind of the result. When the line transform
  detects no segment, \<open>detect_lines\<close> returns the array that \<open>np.zeros_like\<close> made from
  the \<open>uint8\<close> image, before the conversion \<open>.astype(bool)\<close> of its last line: the
  array has the shape of the input image and its every element is zero, but it is an array
  of \<open>uint8\<close>, never a boolean mask. On the other path, when the transform returns a list
  of segments, every result is a boolean array.
\<close>

theorem detect_lines_no_segments_uint8:
  "(detected_lines HoughLinesP img max_depiction_size = None \<longrightarrow>
      detect_lines HoughLinesP cv_line img max_depiction_size segmentation_mask
        = Inr (UInt8Array (zeros_like (inverted_uint8 img))) \<and>
      (\<forall>b. detect_lines HoughLinesP cv_line img max_depiction_size segmentation_mask
             \<noteq> Inr (BoolArray b)) \<and>
      np_shape (zeros_like (inverted_uint8 img)) = np_shape img \<and>
      list_all (list_all (\<lambda>v. v = 0)) (zeros_like (inverted_uint8 img))) \<and>
   (\<forall>ls r. detected_lines HoughLinesP img max_depiction_size = Some ls \<and>
      detect_lines HoughLinesP cv_line img max_depiction_size segmentation_mask = Inr r \<longrightarrow>
      (\<exists>b. r = BoolArray b))"
proof (intro conjI impI allI)
  let ?z = "zeros_like (inverted_uint8 img)"
  assume n: "detected_lines HoughLinesP img max_depiction_size = None"
  show "detect_lines HoughLinesP cv_line img max_depiction_size segmentation_mask
      = Inr (UInt8Array ?z)"
    by (rule detect_lines_None [OF n])
  show "detect_lines HoughLinesP cv_line img max_depiction_size segmentation_mask
      \<noteq> Inr (BoolArray b)" for b
    unfolding detect_lines_None [OF n] by simp
next
  show "np_shape (zeros_like (inverted_uint8 img)) = np_shape img"
    by (simp add: np_shape_def zeros_like_def inverted_uint8_def astype_uint8_def np_times_def
        np_invert_def comp_def)
  show "list_all (list_all (\<lambda>v. v = 0)) (zeros_like (inverted_uint8 img))"
    by (simp add: zeros_like_def list_all_iff)
next
  fix ls r
  assume "detected_lines HoughLinesP img max_depiction_size = Some ls \<and>
      detect_lines HoughLinesP cv_line img max_depiction_size segmentation_mask = Inr r"
  then show "\<exists>b. r = BoolArray b"
    by (auto simp: detect_lines_Some split: sum.splits)
qed

text \<open>
  An image that is white everywhere: the converted image is zero everywhere, and the line
  transform finds no segment in it.
\<close>

theorem detect_lines_no_segments_uint8_witness:
  "detected_lines (\<lambda>im n. None) [[True, True], [True, True]] (1, 1) = None \<and>
   detect_lines (\<lambda>im n. None) mark_segment [[True, True], [True, True]] (1, 1)
       [[False, False], [False, False]]
     = Inr (UInt8Array [[0, 0], [0, 0]]) \<and>
   detect_lines (\<lambda>im n. None) mark_segment [[True, True], [True, True]] (1, 1)
       [[False, False], [False, False]]
     \<noteq> Inr (BoolArray [[False, False], [False, False]]) \<and>
   np_shape [[0, 0], [0, 0 :: 8 word]] = np_shape [[True, True], [True, True]] \<and>
   detected_lines (\<lambda>im n. Some []) [[True, True], [True, True]] (1, 1) = Some [] \<and>
   detect_lines (\<lambda>im n. Some []) mark_segment [[True, True], [True, True]] (1, 1)
       [[False, False], [False, False]]
     = Inr (BoolArray [[False, False], [False, False]])"
proof -
  let ?img = "[[True, True], [True, True]]"
  let ?m = "[[False, False], [False, False]]"
  have h: "detected_lines (\<lambda>im n. None) ?img (1, 1) = None"
    by (simp add: detected_lines_def)
  have s: "detected_lines (\<lambda>im n. Some []) ?img (1, 1) = Some []"
    by (simp add: detected_lines_def)
  have z: "zeros_like (inverted_uint8 ?img) = [[0, 0], [0, 0]]"
    by code_simp
  have r: "detect_lines (\<lambda>im n. Some []) mark_segment ?img (1, 1) ?m
      = Inr (BoolArray [[False, False], [False, False]])"
    by (simp add: detect_lines_Some [OF s] z astype_bool_def)
  from detect_lines_no_segments_uint8 [of "\<lambda>im n. None" ?img "(1, 1)" mark_segment ?m] h
  have n: "detect_lines (\<lambda>im n. None) mark_segment ?img (1, 1) ?m
        = Inr (UInt8Array (zeros_like (inverted_uint8 ?img)))"
    and nb: "detect_lines (\<lambda>im n. None) mark_segment ?img (1, 1) ?m
        \<noteq> Inr (BoolArray [[False, False], [False, False]])"
    and sh: "np_shape (zeros_like (inverted_uint8 ?img)) = np_shape ?img"
    by blast+
  from detect_lines_no_segments_uint8 [of "\<lambda>im n. Some []" ?img "(1, 1)" mark_segment ?m] s r
  have "\<exists>b. BoolArray [[False, False], [False, False]] = BoolArray b"
    by blast
  with h s r n nb sh show ?thesis
    unfolding z by (simp only: simp_thms)
qed

subsection \<open>detect_horizontal_and_vertical_lines\<close>

text \<open>
  C8: \<open>detect_horizontal_and_vertical_lines\<close> returns the elementwise disjunction of
  two masks: the pixels that are 255 after \<open>cv2.morphologyEx\<close> with \<open>MORPH_OPEN\<close> and 2
  iterations under a rectangular kernel of 1 row and \<open>max_width\<close> columns, and those
  under a rectangular kernel of \<open>max_height\<close> rows and 1 column. Both openings are
  applied to the inverted image as \<open>uint8\<close>, and \<open>cv2.morphologyEx\<close> returns an array of
  the shape of its input.
\<close>

theorem detect_horizontal_and_vertical_lines_or:
  assumes "np_shape (morphologyEx (inverted_uint8 img) MORPH_OPEN
                       (rect_kernel getStructuringElement 1 max_width) 2)
             = np_shape (inverted_uint8 img)"
    and "np_shape (morphologyEx (inverted_uint8 img) MORPH_OPEN
                     (rect_kernel getStructuringElement max_height 1) 2)
           = np_shape (inverted_uint8 img)"
  shows "detect_horizontal_and_vertical_lines getStructuringElement morphologyEx img
           (max_height, max_width) =
         Inr (map2 (map2 (\<or>))
                (np_eq (morphologyEx (inverted_uint8 img) MORPH_OPEN
                          (rect_kernel getStructuringElement 1 max_width) 2) 255)
                (np_eq (morphologyEx (inverted_uint8 img) MORPH_OPEN
                          (rect_kernel getStructuringElement max_height 1) 2) 255))"
  using assms
  by (simp add: detect_horizontal_and_vertical_lines_def np_add_bool_def rect_kernel_def
      np_shape_np_eq Let_def)

theorem detect_horizontal_and_vertical_lines_or_witness:
  "np_shape ((\<lambda>im op k n. im) (inverted_uint8 [[True, False]]) MORPH_OPEN
               (rect_kernel (\<lambda>s k. k) 1 2) (2 :: nat))
     = np_shape (inverted_uint8 [[True, False]]) \<and>
   np_shape ((\<lambda>im op k n. im) (inverted_uint8 [[True, False]]) MORPH_OPEN
               (rect_kernel (\<lambda>s k. k) 1 1) (2 :: nat))
     = np_shape (inverted_uint8 [[True, False]]) \<and>
   detect_horizontal_and_vertical_lines (\<lambda>s k. k) (\<lambda>im op k n. im) [[True, False]] (1, 2)
     = Inr [[False, True]]"
proof -
  have 1: "np_shape ((\<lambda>im op k n. im) (inverted_uint8 [[True, False]]) MORPH_OPEN
               (rect_kernel (\<lambda>s k. k) 1 2) (2 :: nat))
     = np_shape (inverted_uint8 [[True, False]])"
    by simp
  have 2: "np_shape ((\<lambda>im op k n. im) (inverted_uint8 [[True, False]]) MORPH_OPEN
               (rect_kernel (\<lambda>s k. k) 1 1) (2 :: nat))
     = np_shape (inverted_uint8 [[True, False]])"
    by simp
  have v: "inverted_uint8 [[True, False]] = [[0, 255]]"
    by code_simp
  from detect_horizontal_and_vertical_lines_or
    [of "\<lambda>im op k n. im" "[[True, False]]" "\<lambda>s k. k" 2 1] 1 2
  have "detect_horizontal_and_vertical_lines (\<lambda>s k. k) (\<lambda>im op k n. im) [[True, False]] (1, 2)
      = Inr (map2 (map2 (\<or>)) (np_eq (inverted_uint8 [[True, False]]) 255)
               (np_eq (inverted_uint8 [[True, False]]) 255))"
    by simp
  also have "\<dots> = Inr [[False, True]]"
    by (simp add: v np_eq_def)
  finally show ?thesis
    by simp
qed

subsection \<open>complete_structure_mask\<close>

text \<open>
  C10: \<open>complete_structure_mask\<close>, an erosion followed by a dilation with the 5 by 5
  square, is anti-extensive: its result has the shape of the input mask, and every pixel
  that is true in the result is true in the input mask.
\<close>

theorem complete_structure_mask_anti_extensive:
  "np_shape (complete_structure_mask img) = np_shape img \<and>
   (y < length img \<and> x < length (img ! y) \<and> complete_structure_mask img ! y ! x \<longrightarrow>
      img ! y ! x)"
proof (intro conjI impI)
  show "np_shape (complete_structure_mask img) = np_shape img"
    by (rule np_shape_complete_structure_mask)
  assume "y < length img \<and> x < length (img ! y) \<and> complete_structure_mask img ! y ! x"
  then have "y < length img" and "x < length (img ! y)"
    and "binary_dilation (binary_erosion img (np_ones (5, 5))) (np_ones (5, 5)) ! y ! x"
    by (simp_all add: complete_structure_mask_def)
  then show "img ! y ! x"
    by (rule opening_anti_extensive)
qed

theorem complete_structure_mask_anti_extensive_witness:
  "(1 :: nat) < length [[True, True, True], [True, True, True], [True, True, False]] \<and>
   (1 :: nat) < length ([[True, True, True], [True, True, True], [True, True, False]] ! 1) \<and>
   complete_structure_mask [[True, True, True], [True, True, True], [True, True, True]] ! 1 ! 1 \<and>
   [[True, True, True], [True, True, True], [True, True, True]] ! 1 ! 1 \<and>
   \<not> complete_structure_mask [[True, True, True], [True, True, True], [True, True, False]] ! 1 ! 1"
proof -
  have t: "complete_structure_mask [[True, True, True], [True, True, True], [True, True, True]]
      ! 1 ! 1"
    by code_simp
  have f: "\<not> complete_structure_mask [[True, True, True], [True, True, True], [True, True, False]]
      ! 1 ! 1"
    by code_simp
  from complete_structure_mask_anti_extensive
    [of "[[True, True, True], [True, True, True], [True, True, True]]" 1 1] t f
  show ?thesis
    by simp
qed

subsection \<open>detect_chemical_structures\<close>

text \<open>
  C5: \<open>detect_chemical_structures\<close> binarizes the image with the Otsu threshold, which
  never raises; the structure mask is \<open>complete_structure_mask\<close> of the binarized image;
  the size estimate is the pair of the height and the width of the image, each divided by
  10 (integer division); and the result is the structure mask paired with what
  \<open>detect_lines\<close> returns for the inverted structure mask, the size estimate and the
  structure mask as the candidate mask. \<open>detect_lines\<close> does return, and so does
  \<open>detect_chemical_structures\<close>, when the binarized image is a rectangle of at most
  \<open>2 ^ 31\<close> rows and columns and the endpoints of the detected segments are pixels of
  the image.
\<close>

theorem detect_chemical_structures_composition:
  "\<exists>binary.
     binarize_image rgb2gray threshold_otsu img (Str ''otsu'') = Inr binary \<and>
     detect_chemical_structures rgb2gray threshold_otsu HoughLinesP cv_line img =
       (case detect_lines HoughLinesP cv_line (np_invert (complete_structure_mask binary))
               (shape0 img div 10, shape1 img div 10) (complete_structure_mask binary) of
          Inl e \<Rightarrow> Inl e
        | Inr exclusion_mask \<Rightarrow> Inr (complete_structure_mask binary, exclusion_mask)) \<and>
     (rectangular h w binary \<and> h \<le> 2 ^ 31 \<and> w \<le> 2 ^ 31 \<and>
      (case detected_lines HoughLinesP (np_invert (complete_structure_mask binary))
              (shape0 img div 10, shape1 img div 10) of
         None \<Rightarrow> True
       | Some ls \<Rightarrow> list_all (line_in_bounds h w) ls) \<longrightarrow>
      (\<exists>exclusion_mask.
         detect_lines HoughLinesP cv_line (np_invert (complete_structure_mask binary))
           (shape0 img div 10, shape1 img div 10) (complete_structure_mask binary)
           = Inr exclusion_mask \<and>
         detect_chemical_structures rgb2gray threshold_otsu HoughLinesP cv_line img
           = Inr (complete_structure_mask binary, exclusion_mask)))"
proof -
  define binary where "binary = np_greater (rgb2gray img) (threshold_otsu (rgb2gray img))"
  define sm where "sm = complete_structure_mask binary"
  define size where "size = (shape0 img div 10, shape1 img div 10)"
  have b: "binarize_image rgb2gray threshold_otsu img (Str ''otsu'') = Inr binary"
    by (simp add: binarize_image_def binary_def Let_def)
  have d: "detect_chemical_structures rgb2gray threshold_otsu HoughLinesP cv_line img =
       (case detect_lines HoughLinesP cv_line (np_invert sm) size sm of
          Inl e \<Rightarrow> Inl e
        | Inr exclusion_mask \<Rightarrow> Inr (sm, exclusion_mask))"
    unfolding sm_def size_def by (simp add: detect_chemical_structures_def b Let_def)
  have t: "\<exists>exclusion_mask.
         detect_lines HoughLinesP cv_line (np_invert sm) size sm = Inr exclusion_mask \<and>
         detect_chemical_structures rgb2gray threshold_otsu HoughLinesP cv_line img
           = Inr (sm, exclusion_mask)"
    if rect: "rectangular h w binary" and h: "h \<le> 2 ^ 31" and w: "w \<le> 2 ^ 31"
      and hough: "case detected_lines HoughLinesP (np_invert sm) size of
         None \<Rightarrow> True | Some ls \<Rightarrow> list_all (line_in_bounds h w) ls"
  proof (cases "detected_lines HoughLinesP (np_invert sm) size")
    case None
    from detect_lines_None [OF None] d show ?thesis
      by simp
  next
    case (Some ls)
    with hough have lb: "list_all (line_in_bounds h w) ls"
      by simp
    have rs: "rectangular h w sm"
      unfolding sm_def by (rule rectangular_complete_structure_mask [OF rect])
    have "\<forall>l \<in> set ls. \<forall>p \<in> set (sampled_points l). index_ok sm p"
      using lb sampled_points_index_ok [OF rs h w] by (auto simp: list_all_iff)
    then have "lines_loop cv_line sm ls (zeros_like (inverted_uint8 (np_invert sm))) =
        Inr (fold (draw cv_line) (filter (\<lambda>l. \<not> any_sample_inside sm l) ls)
               (zeros_like (inverted_uint8 (np_invert sm))))"
      by (rule lines_loop_total)
    with detect_lines_Some [OF Some, of cv_line sm] d show ?thesis
      by simp
  qed
  from b d t show ?thesis
    unfolding sm_def size_def by blast
qed

theorem detect_chemical_structures_composition_witness:
  "binarize_image (\<lambda>im. [[1, 1, 1, 1, 0, 0, 0, 0]]) (\<lambda>g. 1 / 2) (Gray [[255, 255, 255, 255, 0, 0, 0, 0 :: nat]])
       (Str ''otsu'')
     = Inr [[True, True, True, True, False, False, False, False]] \<and>
   complete_structure_mask [[True, True, True, True, False, False, False, False]]
     = [[True, True, True, True, False, False, False, False]] \<and>
   rectangular 1 8 [[True, True, True, True, False, False, False, False]] \<and>
   (1 :: nat) \<le> 2 ^ 31 \<and> (8 :: nat) \<le> 2 ^ 31 \<and>
   detected_lines (\<lambda>im n. Some [(4, 0, 7, 0)])
       (np_invert (complete_structure_mask [[True, True, True, True, False, False, False, False]]))
       (shape0 (Gray [[255, 255, 255, 255, 0, 0, 0, 0 :: nat]]) div 10,
        shape1 (Gray [[255, 255, 255, 255, 0, 0, 0, 0 :: nat]]) div 10)
     = Some [(4, 0, 7, 0)] \<and>
   list_all (line_in_bounds 1 8) [(4, 0, 7, 0)] \<and>
   detect_chemical_structures (\<lambda>im. [[1, 1, 1, 1, 0, 0, 0, 0]]) (\<lambda>g. 1 / 2)
       (\<lambda>im n. Some [(4, 0, 7, 0)]) mark_segment (Gray [[255, 255, 255, 255, 0, 0, 0, 0 :: nat]])
     = Inr ([[True, True, True, True, False, False, False, False]],
            BoolArray [[False, False, False, False, True, True, True, True]])"
proof -
  let ?R = "\<lambda>im :: nat image. [[1, 1, 1, 1, 0, 0, 0, 0 :: float]]"
  let ?O = "\<lambda>g :: float list list. (1 / 2 :: float)"
  let ?H = "\<lambda>(im :: 8 word list list) (n :: int). Some [(4, 0, 7, 0 :: int)]"
  let ?img = "Gray [[255, 255, 255, 255, 0, 0, 0, 0 :: nat]]"
  let ?b = "[[True, True, True, True, False, False, False, False]]"
  have b: "binarize_image ?R ?O ?img (Str ''otsu'') = Inr ?b"
    by (simp add: binarize_image_def np_greater_def)
  have sm: "complete_structure_mask ?b = ?b"
    by code_simp
  have rect: "rectangular 1 8 ?b"
    by (simp add: rectangular_def)
  have h: "detected_lines ?H (np_invert (complete_structure_mask ?b))
      (shape0 ?img div 10, shape1 ?img div 10) = Some [(4, 0, 7, 0)]"
    by (simp add: detected_lines_def)
  have lb: "list_all (line_in_bounds 1 8) [(4, 0, 7, 0)]"
    by (simp add: line_in_bounds_def)
  have z: "zeros_like (inverted_uint8 (np_invert ?b)) = [[0, 0, 0, 0, 0, 0, 0, 0]]"
    by code_simp
  have out: "\<not> any_sample_inside ?b (4, 0, 7, 0)"
    by (simp add: any_sample_inside_pixels sampled_pixels_4_7 np_getitem2_def)
  from detect_chemical_structures_composition [of ?R ?O ?img ?H mark_segment 1 8]
  obtain binary ex where "binarize_image ?R ?O ?img (Str ''otsu'') = Inr binary"
    and imp: "rectangular 1 8 binary \<and> (1 :: nat) \<le> 2 ^ 31 \<and> (8 :: nat) \<le> 2 ^ 31 \<and>
      (case detected_lines ?H (np_invert (complete_structure_mask binary))
              (shape0 ?img div 10, shape1 ?img div 10) of
         None \<Rightarrow> True
       | Some ls \<Rightarrow> list_all (line_in_bounds 1 8) ls) \<longrightarrow>
      (\<exists>exclusion_mask.
         detect_lines ?H mark_segment (np_invert (complete_structure_mask binary))
           (shape0 ?img div 10, shape1 ?img div 10) (complete_structure_mask binary)
           = Inr exclusion_mask \<and>
         detect_chemical_structures ?R ?O ?H mark_segment ?img
           = Inr (complete_structure_mask binary, exclusion_mask))"
    by blast
  with b have bin: "binary = ?b"
    by simp
  from imp rect h lb obtain ex where
    dl: "detect_lines ?H mark_segment (np_invert (complete_structure_mask ?b))
           (shape0 ?img div 10, shape1 ?img div 10) (complete_structure_mask ?b) = Inr ex"
    and dc: "detect_chemical_structures ?R ?O ?H mark_segment ?img
           = Inr (complete_structure_mask ?b, ex)"
    unfolding bin by auto
  from dl have "ex = BoolArray (astype_bool (fold (draw mark_segment)
      (filter (\<lambda>l. \<not> any_sample_inside ?b l) [(4, 0, 7, 0)])
      (zeros_like (inverted_uint8 (np_invert ?b)))))"
    unfolding sm
    using lines_loop_fold [of mark_segment ?b "[(4, 0, 7, 0)]"
        "zeros_like (inverted_uint8 (np_invert ?b))"]
    by (auto simp: detect_lines_Some [OF h [unfolded sm]] split: sum.splits)
  also have "\<dots> = BoolArray [[False, False, False, False, True, True, True, True]]"
    by (simp add: out z draw_def mark_segment_def astype_bool_def)
  finally have "ex = BoolArray [[False, False, False, False, True, True, True, True]]" .
  with dc b sm rect h lb show ?thesis
    by simp
qed

end
